theory Spec2Isabelle
  imports Complex_Main
begin

section \<open>Data model of index.ts\<close>

text \<open>
  JavaScript numbers are modelled as reals (ticks, which the program only ever increments
  from 0 or copies, as integers). Two computations are rounded to binary64 as the source
  rounds them, because properties stated below depend on the rounding: \<open>lerp\<close>, and the
  subtraction of the frame time from a message's remaining delay. The arithmetic of the
  clocks and of \<open>serverNetSend\<close> is exact. Infinities and NaN are outside the model. The DOM
  (the \<open>display\<close> field, \<open>updateEntityElementPosition\<close>, \<open>domCreateElements\<close>) is
  presentation only and is left out: no field of the state that is modelled here is read
  from or written through it.
\<close>

definition NUM_ENTITIES :: nat where
  "NUM_ENTITIES = 4"

definition SERVER_TICK_DURATION :: real where
  "SERVER_TICK_DURATION = 1 / 90"

record Vec2 =
  x :: real
  y :: real

record Entity =
  position :: Vec2
  speed :: real
  angle :: real
  angularVelocity :: real

record Game =
  entities :: "Entity list"

record Server =
  game :: Game
  tick :: int
  tickDuration :: real
  tickAccumulator :: real

record ServerNetMessage =
  tick :: int
  entityPositions :: "Vec2 list"

record ClientInFlightMessage =
  message :: ServerNetMessage
  timeRemaining :: real

text \<open>The anonymous object types \<open>Client.net.sim\<close>, \<open>Client.net.measured\<close> and \<open>Client.net\<close>.\<close>

record NetSim =
  latency :: real
  jitter :: real
  packetLoss :: real
  inFlightMessages :: "ClientInFlightMessage list"

record NetMeasured =
  latency :: real
  jitter :: real
  packetLoss :: real
  jitterBackBuffer :: "real list"

record ClientNet =
  sim :: NetSim
  measured :: NetMeasured
  lastReceivedTick :: int
  backBuffer :: "ServerNetMessage list"
  interpolationDelay :: real

record Client =
  game :: Game
  net :: ClientNet
  tick :: int
  tickAccumulator :: real
  clockPaused :: bool
  tickDuration :: real
  prevNetState :: "ServerNetMessage option"
  nextNetState :: "ServerNetMessage option"

record App =
  server :: Server
  client :: Client

text \<open>The global \<open>app\<close> together with the module variable \<open>lastFrameTime\<close>.\<close>

record World =
  app :: App
  lastFrameTime :: real

text \<open>
  \<open>Math.random()\<close>: the calls still to come, in order. A function that draws takes the
  sequence and hands back what is left of it.
\<close>

type_synonym rand = "nat \<Rightarrow> real"

definition rand_ok :: "rand \<Rightarrow> bool" where
  "rand_ok rnd \<longleftrightarrow> (\<forall>n. 0 \<le> rnd n \<and> rnd n < 1)"

definition advance_rand :: "nat \<Rightarrow> rand \<Rightarrow> rand" where
  "advance_rand k rnd = (\<lambda>n. rnd (n + k))"

datatype error = TypeError

section \<open>Array helpers with JavaScript's out-of-range behaviour\<close>

text \<open>\<open>xs[i]\<close>: \<open>undefined\<close> (here \<open>None\<close>) outside the array, also for a negative index.\<close>

definition arrayGet :: "'a list \<Rightarrow> int \<Rightarrow> 'a option" where
  "arrayGet xs i = (if 0 \<le> i \<and> i < int (length xs) then Some (xs ! nat i) else None)"

text \<open>\<open>xs.findIndex(P)\<close>: the first index whose element satisfies \<open>P\<close>, or \<open>-1\<close>.\<close>

fun findIndex :: "('a \<Rightarrow> bool) \<Rightarrow> 'a list \<Rightarrow> int" where
  "findIndex P [] = - 1"
| "findIndex P (a # as) =
     (if P a then 0 else (let r = findIndex P as in if r < 0 then - 1 else r + 1))"

text \<open>
  \<open>xs.splice(0, n)\<close>, as far as the array left behind goes: the delete count is clamped to
  \<open>[0, length]\<close>, so a negative count deletes nothing.
\<close>

definition splice0 :: "int \<Rightarrow> 'a list \<Rightarrow> 'a list" where
  "splice0 n xs = drop (nat n) xs"

section \<open>Rounding to binary64\<close>

text \<open>
  A double is \<open>m * 2 ^ e\<close> with \<open>m\<close> an integer below \<open>2 ^ 53\<close> in absolute value and \<open>e\<close>
  from -1074 to 971. \<open>round64\<close> is the rounding of an arithmetic result to the nearest
  double, ties to the even mantissa: the exponent is the least one that brings the mantissa
  below \<open>2 ^ 53\<close>, found by counting up from -1074. Results of \<open>2 ^ 1024\<close> and more, where
  the source gets \<open>Infinity\<close>, are outside the model.
\<close>

definition roundHalfEven :: "real \<Rightarrow> int" where
  "roundHalfEven q =
     (let f = \<lfloor>q\<rfloor>
      in if q - of_int f < 1 / 2 then f
         else if q - of_int f > 1 / 2 then f + 1
         else if even f then f else f + 1)"

fun exponentFrom :: "nat \<Rightarrow> int \<Rightarrow> real \<Rightarrow> int" where
  "exponentFrom 0 e v = e"
| "exponentFrom (Suc k) e v = (if v < 2 ^ 53 * 2 powi e then e else exponentFrom k (e + 1) v)"

definition exponent64 :: "real \<Rightarrow> int" where
  "exponent64 v = exponentFrom 2045 (- 1074) v"

definition round64 :: "real \<Rightarrow> real" where
  "round64 v =
     sgn v * of_int (roundHalfEven (\<bar>v\<bar> / 2 powi exponent64 \<bar>v\<bar>)) * 2 powi exponent64 \<bar>v\<bar>"


section \<open>math.ts\<close>

text \<open>\<open>a + (b - a) * alpha\<close> on doubles: each of the three operations rounds.\<close>

definition lerp :: "real \<Rightarrow> real \<Rightarrow> real \<Rightarrow> real" where
  "lerp a b alpha = round64 (a + round64 (round64 (b - a) * alpha))"

section \<open>Initial state\<close>

definition initialApp :: App where
  "initialApp =
     \<lparr> server = \<lparr> Server.game = \<lparr> entities = [] \<rparr>, tick = 0,
                  tickDuration = SERVER_TICK_DURATION, tickAccumulator = 0 \<rparr>,
       client = \<lparr> Client.game = \<lparr> entities = [] \<rparr>,
                  net = \<lparr> sim = \<lparr> NetSim.latency = 200, jitter = 0, packetLoss = 0,
                                  inFlightMessages = [] \<rparr>,
                          measured = \<lparr> NetMeasured.latency = 0, jitter = 0, packetLoss = 0,
                                       jitterBackBuffer = [] \<rparr>,
                          lastReceivedTick = 0, backBuffer = [], interpolationDelay = 2 \<rparr>,
                  tick = 0, tickAccumulator = 0, clockPaused = False,
                  tickDuration = SERVER_TICK_DURATION,
                  prevNetState = None, nextNetState = None \<rparr> \<rparr>"

text \<open>
  \<open>initAppState\<close>: the inner loop for \<open>i = 0\<close> (server entities, four draws each) and for
  \<open>i = 1\<close> (client entities, no draw).
\<close>

fun initServerEntities :: "nat \<Rightarrow> rand \<Rightarrow> Entity list" where
  "initServerEntities 0 rnd = []"
| "initServerEntities (Suc n) rnd =
     \<lparr> position = \<lparr> x = rnd 0, y = rnd 1 \<rparr>, speed = rnd 2 * 0.2 + 0.1,
       angle = rnd 3 * 2 * pi, angularVelocity = 0 \<rparr>
     # initServerEntities n (advance_rand 4 rnd)"

definition initClientEntities :: "nat \<Rightarrow> Entity list" where
  "initClientEntities n =
     replicate n \<lparr> position = \<lparr> x = 0.5, y = 0.5 \<rparr>, speed = 0, angle = 0,
                   angularVelocity = 0 \<rparr>"

definition initAppState :: "rand \<Rightarrow> App \<Rightarrow> App" where
  "initAppState rnd a =
     a\<lparr> server := (server a)\<lparr> Server.game :=
            \<lparr> entities = entities (Server.game (server a))
                           @ initServerEntities NUM_ENTITIES rnd \<rparr> \<rparr>,
        client := (client a)\<lparr> Client.game :=
            \<lparr> entities = entities (Client.game (client a))
                           @ initClientEntities NUM_ENTITIES \<rparr> \<rparr> \<rparr>"

definition initialWorld :: "rand \<Rightarrow> World" where
  "initialWorld rnd = \<lparr> app = initAppState rnd initialApp, lastFrameTime = 0 \<rparr>"

section \<open>Server\<close>

text \<open>\<open>Math.atan2(yy, xx)\<close> on reals.\<close>

definition atan2 :: "real \<Rightarrow> real \<Rightarrow> real" where
  "atan2 yy xx =
     (if xx > 0 then arctan (yy / xx)
      else if xx < 0 then (if yy \<ge> 0 then arctan (yy / xx) + pi else arctan (yy / xx) - pi)
      else if yy > 0 then pi / 2
      else if yy < 0 then - (pi / 2)
      else 0)"

text \<open>The body of the \<open>forEach\<close> in \<open>serverTick\<close>, for one entity.\<close>

definition serverTickEntity :: "real \<Rightarrow> rand \<Rightarrow> Entity \<Rightarrow> Entity \<times> rand" where
  "serverTickEntity dt rnd e =
     (let (av, rnd1) = (if rnd 0 < 0.05 then (2 * rnd 1 - 1, advance_rand 2 rnd)
                        else (angularVelocity e, advance_rand 1 rnd));
          ang = angle e + av * dt;
          vx = cos ang * speed e;
          vy = sin ang * speed e;
          px = x (position e) + vx * dt;
          py = y (position e) + vy * dt;
          (px1, vx1) = (if px > 1 then (1, - \<bar>vx\<bar>) else if px < 0 then (0, \<bar>vx\<bar>) else (px, vx));
          (py1, vy1) = (if py > 1 then (1, - \<bar>vy\<bar>) else if py < 0 then (0, \<bar>vy\<bar>) else (py, vy));
          ang1 = atan2 vy1 vx1;
          ang2 = (if ang1 < 0 then ang1 + 2 * pi else ang1)
      in (e\<lparr> position := \<lparr> x = px1, y = py1 \<rparr>, angle := ang2, angularVelocity := av \<rparr>, rnd1))"

fun serverTickEntities :: "real \<Rightarrow> rand \<Rightarrow> Entity list \<Rightarrow> Entity list \<times> rand" where
  "serverTickEntities dt rnd [] = ([], rnd)"
| "serverTickEntities dt rnd (e # es) =
     (let (e', rnd1) = serverTickEntity dt rnd e;
          (es', rnd2) = serverTickEntities dt rnd1 es
      in (e' # es', rnd2))"

definition serverTick :: "real \<Rightarrow> rand \<Rightarrow> Server \<Rightarrow> Server \<times> rand" where
  "serverTick dt rnd s =
     (let (es, rnd1) = serverTickEntities dt rnd (entities (Server.game s))
      in (s\<lparr> Server.game := \<lparr> entities = es \<rparr>, Server.tick := Server.tick s + 1 \<rparr>, rnd1))"

text \<open>
  \<open>serverNetSend\<close>: one draw decides the loss; only a message that is not lost draws its
  jitter.
\<close>

definition serverNetSend :: "rand \<Rightarrow> App \<Rightarrow> App \<times> rand" where
  "serverNetSend rnd a =
     (let msg = \<lparr> ServerNetMessage.tick = Server.tick (server a),
                  entityPositions = map position (entities (Server.game (server a))) \<rparr>;
          c = client a;
          shouldDropPacket = (rnd 0 < NetSim.packetLoss (sim (net c)))
      in if shouldDropPacket then (a, advance_rand 1 rnd)
         else
           (let lat = NetSim.latency (sim (net c));
                jit = (2 * rnd 1 - 1) * NetSim.jitter (sim (net c));
                inFlightMessage = \<lparr> message = msg, timeRemaining = ((lat / 2) + jit) / 1000 \<rparr>
            in (a\<lparr> client := c\<lparr> net := (net c)\<lparr> sim := (sim (net c))\<lparr> inFlightMessages :=
                     inFlightMessages (sim (net c)) @ [inFlightMessage] \<rparr> \<rparr> \<rparr> \<rparr>,
                advance_rand 2 rnd)))"

text \<open>
  The server loop of \<open>frameStep\<close>. It does not return when \<open>tickDuration\<close> is not positive
  and the accumulator exceeds it; \<open>None\<close> stands for that.
\<close>

partial_function (option) serverTickLoop ::
  "rand \<Rightarrow> bool \<Rightarrow> Server \<Rightarrow> (Server \<times> bool \<times> rand) option" where
  "serverTickLoop rnd ticked s =
     (if Server.tickAccumulator s > Server.tickDuration s
      then serverTickLoop
             (snd (serverTick (Server.tickDuration s) rnd
                (s\<lparr> Server.tickAccumulator := Server.tickAccumulator s - Server.tickDuration s \<rparr>)))
             True
             (fst (serverTick (Server.tickDuration s) rnd
                (s\<lparr> Server.tickAccumulator := Server.tickAccumulator s - Server.tickDuration s \<rparr>)))
      else Some (s, ticked, rnd))"

section \<open>Client\<close>

definition MAX_JITTER_ROLLING_AVERAGE :: nat where
  "MAX_JITTER_ROLLING_AVERAGE = 5"

text \<open>
  \<open>onReceiveServerMessage\<close>. The offset sample and the new \<open>tickDuration\<close> are computed
  before the test for an out-of-order message. The quotient by \<open>tickDuration\<close> is
  JavaScript's where \<open>tickDuration\<close> is not 0, as in every reachable state.
\<close>

definition onReceiveServerMessage :: "Client \<Rightarrow> ServerNetMessage \<Rightarrow> Client" where
  "onReceiveServerMessage c m =
     (let clientTime = real_of_int (Client.tick c)
                         + (Client.tickAccumulator c / Client.tickDuration c);
          clockDiffForPacket = real_of_int (ServerNetMessage.tick m) - clientTime;
          pushed = jitterBackBuffer (measured (net c)) @ [clockDiffForPacket];
          jbb = (if length pushed > MAX_JITTER_ROLLING_AVERAGE
                 then splice0 (int (length pushed) - int MAX_JITTER_ROLLING_AVERAGE) pushed
                 else pushed);
          clockDiff = foldl (\<lambda>a c. a + c) 0 jbb / real (length jbb);
          c1 = c\<lparr> net := (net c)\<lparr> measured := (measured (net c))\<lparr> jitterBackBuffer := jbb \<rparr> \<rparr>,
                  Client.tickDuration :=
                    max (SERVER_TICK_DURATION * 0.9)
                        (SERVER_TICK_DURATION - (0.01 * (clockDiff * SERVER_TICK_DURATION))) \<rparr>
      in if ServerNetMessage.tick m < lastReceivedTick (net c1) then c1
         else
           (let c2 = c1\<lparr> net := (net c1)\<lparr> lastReceivedTick := ServerNetMessage.tick m \<rparr> \<rparr>;
                c3 = (if clockPaused c2
                      then c2\<lparr> clockPaused := False, Client.tick := ServerNetMessage.tick m,
                               Client.tickAccumulator := 0 \<rparr>
                      else c2)
            in c3\<lparr> net := (net c3)\<lparr> backBuffer := backBuffer (net c3) @ [m] \<rparr> \<rparr>))"

text \<open>
  The \<open>filter\<close> over the in-flight messages: every message loses \<open>rdt\<close>, the difference
  rounded as \<open>timeRemaining -= rdt\<close> rounds it; one that is due is handed to
  \<open>onReceiveServerMessage\<close> and dropped from the list, the others are kept. The result is
  the list kept and the client after the deliveries.
\<close>

fun deliverMessages ::
  "real \<Rightarrow> ClientInFlightMessage list \<Rightarrow> Client \<Rightarrow> ClientInFlightMessage list \<times> Client" where
  "deliverMessages rdt [] c = ([], c)"
| "deliverMessages rdt (im # ims) c =
     (let im' = im\<lparr> timeRemaining := round64 (timeRemaining im - rdt) \<rparr>
      in if timeRemaining im' \<le> 0
         then deliverMessages rdt ims (onReceiveServerMessage c (message im'))
         else (let (kept, c') = deliverMessages rdt ims c in (im' # kept, c')))"

definition clientReceive :: "real \<Rightarrow> Client \<Rightarrow> Client" where
  "clientReceive rdt c =
     (let (kept, c') = deliverMessages rdt (inFlightMessages (sim (net c))) c
      in c'\<lparr> net := (net c')\<lparr> sim := (sim (net c'))\<lparr> inFlightMessages := kept \<rparr> \<rparr> \<rparr>)"

text \<open>The client clock loop; \<open>None\<close> when it does not return.\<close>

partial_function (option) clientTickLoop :: "Client \<Rightarrow> Client option" where
  "clientTickLoop c =
     (if Client.tickAccumulator c > Client.tickDuration c
      then clientTickLoop
             (c\<lparr> Client.tickAccumulator := Client.tickAccumulator c - Client.tickDuration c,
                 Client.tick := Client.tick c + 1 \<rparr>)
      else Some c)"

definition clientClock :: "real \<Rightarrow> Client \<Rightarrow> Client option" where
  "clientClock rdt c =
     (if \<not> clockPaused c
      then clientTickLoop (c\<lparr> Client.tickAccumulator := Client.tickAccumulator c + rdt \<rparr>)
      else Some c)"

definition targetSubTickOf :: "Client \<Rightarrow> real" where
  "targetSubTickOf c =
     real_of_int (Client.tick c) + (Client.tickAccumulator c / Client.tickDuration c)
       - interpolationDelay (net c)"

text \<open>
  The \<open>forEach\<close> over the client's entities: entity \<open>idx\<close> reads position \<open>idx\<close> of both
  snapshots; reading \<open>.x\<close> of a position that is not there throws.
\<close>

fun interpolateEntities ::
  "real \<Rightarrow> Vec2 list \<Rightarrow> Vec2 list \<Rightarrow> Entity list \<Rightarrow> error + Entity list" where
  "interpolateEntities alpha ps ns [] = Inr []"
| "interpolateEntities alpha (p # ps) (n # ns) (e # es) =
     (case interpolateEntities alpha ps ns es of
        Inl err \<Rightarrow> Inl err
      | Inr es' \<Rightarrow>
          Inr (e\<lparr> position := \<lparr> x = lerp (x p) (x n) alpha, y = lerp (y p) (y n) alpha \<rparr> \<rparr>
               # es'))"
| "interpolateEntities alpha ps ns (e # es) = Inl TypeError"

text \<open>Bracket search, trim and interpolation (the frame from \<open>findIndex\<close> on).\<close>

definition interpolationAlpha :: "ServerNetMessage \<Rightarrow> ServerNetMessage \<Rightarrow> real \<Rightarrow> real" where
  "interpolationAlpha p n t =
     1 - ((real_of_int (ServerNetMessage.tick n) - t)
          / (real_of_int (ServerNetMessage.tick n) - real_of_int (ServerNetMessage.tick p)))"

definition bracketInterpolate :: "real \<Rightarrow> Client \<Rightarrow> error + Client" where
  "bracketInterpolate targetSubTick c =
     (let bb = backBuffer (net c);
          nextNetStateIdx = findIndex (\<lambda>m. real_of_int (ServerNetMessage.tick m) > targetSubTick) bb;
          prev = (if nextNetStateIdx > 0 then arrayGet bb (nextNetStateIdx - 1) else None);
          nxt = arrayGet bb nextNetStateIdx;
          c1 = c\<lparr> prevNetState := prev, nextNetState := nxt,
                  net := (net c)\<lparr> backBuffer := splice0 (nextNetStateIdx - 1) bb \<rparr> \<rparr>
      in case nxt of
           None \<Rightarrow> Inr c1
         | Some n \<Rightarrow>
             (case prev of
                None \<Rightarrow> Inr c1
              | Some p \<Rightarrow>
                  (case interpolateEntities (interpolationAlpha p n targetSubTick)
                          (entityPositions p) (entityPositions n) (entities (Client.game c1)) of
                     Inl err \<Rightarrow> Inl err
                   | Inr es \<Rightarrow> Inr (c1\<lparr> Client.game := \<lparr> entities = es \<rparr> \<rparr>))))"

text \<open>The pause test, then the bracket search and interpolation.\<close>

definition clientRender :: "Client \<Rightarrow> error + Client" where
  "clientRender c =
     (let targetSubTick = targetSubTickOf c; bb = backBuffer (net c)
      in if length bb = 0 \<or> targetSubTick > real_of_int (ServerNetMessage.tick (last bb))
         then Inr (if \<not> clockPaused c then c\<lparr> clockPaused := True \<rparr> else c)
         else bracketInterpolate targetSubTick c)"

text \<open>The callback of \<open>[app.client].forEach\<close>: deliveries, clock, rendering.\<close>

definition clientUpdate :: "real \<Rightarrow> Client \<Rightarrow> (error + Client) option" where
  "clientUpdate rdt c =
     (case clientClock rdt (clientReceive rdt c) of
        None \<Rightarrow> None
      | Some c' \<Rightarrow> Some (clientRender c'))"

section \<open>The frame\<close>

text \<open>
  \<open>frameStep\<close> with the timestamp \<open>t\<close> and the draws of this frame: the server loop, one
  send if the server ticked, then the client. \<open>None\<close> when a loop does not return,
  \<open>Inl\<close> when the interpolation throws. The closing loop that draws the client's entities
  only reads the state.
\<close>

definition frameStep :: "real \<Rightarrow> rand \<Rightarrow> World \<Rightarrow> (error + World) option" where
  "frameStep t rnd w =
     (let rdt = (t - lastFrameTime w) / 1000;
          a = app w;
          s0 = (server a)\<lparr> Server.tickAccumulator := Server.tickAccumulator (server a) + rdt \<rparr>
      in case serverTickLoop rnd False s0 of
           None \<Rightarrow> None
         | Some (s1, ticked, rnd1) \<Rightarrow>
             (let a1 = a\<lparr> server := s1 \<rparr>;
                  a2 = (if ticked then fst (serverNetSend rnd1 a1) else a1)
              in case clientUpdate rdt (client a2) of
                   None \<Rightarrow> None
                 | Some (Inl err) \<Rightarrow> Some (Inl err)
                 | Some (Inr c) \<Rightarrow> Some (Inr \<lparr> app = a2\<lparr> client := c \<rparr>, lastFrameTime = t \<rparr>)))"

section \<open>Runs of the program\<close>

text \<open>Replacing the list of in-flight messages of a client.\<close>

definition setInFlightMessages :: "ClientInFlightMessage list \<Rightarrow> Client \<Rightarrow> Client" where
  "setInFlightMessages ims c =
     c\<lparr> net := (net c)\<lparr> sim := (sim (net c))\<lparr> inFlightMessages := ims \<rparr> \<rparr> \<rparr>"

text \<open>
  One step of a run. Either the browser calls \<open>frameStep\<close>, with a timestamp that is not
  before the last one and draws in \<open>[0, 1)\<close>, and the frame returns; or the network puts a
  message of its own into the client's queue: any snapshot with any remaining delay, so
  duplicates, reordering and foreign messages are covered. The program on its own takes
  \<open>frame\<close> steps only.
\<close>

inductive step :: "World \<Rightarrow> World \<Rightarrow> bool" where
  frame: "lastFrameTime w \<le> t \<Longrightarrow> rand_ok rnd \<Longrightarrow> frameStep t rnd w = Some (Inr w')
          \<Longrightarrow> step w w'"
| arrival: "step w (w\<lparr> app := (app w)\<lparr> client :=
              setInFlightMessages (inFlightMessages (sim (net (client (app w)))) @ [im])
                (client (app w)) \<rparr> \<rparr>)"

inductive reachable :: "World \<Rightarrow> bool" where
  init: "rand_ok rnd \<Longrightarrow> reachable (initialWorld rnd)"
| after: "reachable w \<Longrightarrow> step w w' \<Longrightarrow> reachable w'"

text \<open>
  The states the program reaches on its own: frames only, every message in the queue put
  there by \<open>serverNetSend\<close>.
\<close>

inductive programReachable :: "World \<Rightarrow> bool" where
  start: "rand_ok rnd \<Longrightarrow> programReachable (initialWorld rnd)"
| frame: "programReachable w \<Longrightarrow> lastFrameTime w \<le> t \<Longrightarrow> rand_ok rnd
          \<Longrightarrow> frameStep t rnd w = Some (Inr w') \<Longrightarrow> programReachable w'"

section \<open>Properties of the snapshot buffer\<close>

definition bufferTicks :: "Client \<Rightarrow> int list" where
  "bufferTicks c = map ServerNetMessage.tick (backBuffer (net c))"

text \<open>Ascending with equal neighbours allowed, and no tick above \<open>lastReceivedTick\<close>.\<close>

definition bufferAscending :: "Client \<Rightarrow> bool" where
  "bufferAscending c \<longleftrightarrow>
     sorted (bufferTicks c) \<and> (\<forall>k \<in> set (bufferTicks c). k \<le> lastReceivedTick (net c))"

definition bufferStrictlyAscending :: "Client \<Rightarrow> bool" where
  "bufferStrictlyAscending c \<longleftrightarrow>
     sorted_wrt (<) (bufferTicks c) \<and> (\<forall>k \<in> set (bufferTicks c). k \<le> lastReceivedTick (net c))"

text \<open>
  The offset window after the sample of message \<open>m\<close> has been pushed: the last
  \<open>MAX_JITTER_ROLLING_AVERAGE\<close> samples.
\<close>

definition windowAfter :: "Client \<Rightarrow> ServerNetMessage \<Rightarrow> real list" where
  "windowAfter c m =
     (let pushed = jitterBackBuffer (measured (net c))
                     @ [real_of_int (ServerNetMessage.tick m)
                        - (real_of_int (Client.tick c)
                           + Client.tickAccumulator c / Client.tickDuration c)]
      in if length pushed > MAX_JITTER_ROLLING_AVERAGE
         then drop (length pushed - MAX_JITTER_ROLLING_AVERAGE) pushed else pushed)"

section \<open>Properties of the transport\<close>

text \<open>The snapshot that \<open>serverNetSend\<close> builds, and the queue of in-flight messages.\<close>

definition sentMessage :: "App \<Rightarrow> ServerNetMessage" where
  "sentMessage a = \<lparr> ServerNetMessage.tick = Server.tick (server a),
                     entityPositions = map position (entities (Server.game (server a))) \<rparr>"

definition queueOf :: "Client \<Rightarrow> ClientInFlightMessage list" where
  "queueOf c = inFlightMessages (sim (net c))"

text \<open>
  What the filter does with one message in a frame of length \<open>rdt\<close>: the message is due
  when its remaining delay, reduced and rounded, is not positive, and is kept with the
  reduced delay otherwise.
\<close>

definition due :: "real \<Rightarrow> ClientInFlightMessage \<Rightarrow> bool" where
  "due rdt im \<longleftrightarrow> round64 (timeRemaining im - rdt) \<le> 0"

definition decrement :: "real \<Rightarrow> ClientInFlightMessage \<Rightarrow> ClientInFlightMessage" where
  "decrement rdt im = im\<lparr> timeRemaining := round64 (timeRemaining im - rdt) \<rparr>"




text \<open>
  The ticks of the queued messages, and what holds of them when only the server sends:
  they ascend strictly, none is above the server's tick, and none is \<open>lastReceivedTick\<close>,
  which is not above the server's tick either.
\<close>

definition queueTicks :: "Client \<Rightarrow> int list" where
  "queueTicks c = map (\<lambda>im. ServerNetMessage.tick (message im)) (queueOf c)"

definition ticksFresh :: "int \<Rightarrow> Client \<Rightarrow> bool" where
  "ticksFresh s c \<longleftrightarrow>
     sorted_wrt (<) (queueTicks c)
     \<and> (\<forall>f \<in> set (queueTicks c). f \<le> s \<and> f \<noteq> lastReceivedTick (net c))
     \<and> lastReceivedTick (net c) \<le> s"

section \<open>A concrete run\<close>

text \<open>
  The start of a session in which every draw is 0, a snapshot of tick \<open>k\<close> with
  \<open>NUM_ENTITIES\<close> positions, the start with the snapshot of tick 3 due in the client's queue,
  and the state one frame (10 ms) later, when that snapshot has been delivered.
\<close>

definition zeroRand :: rand where
  "zeroRand = (\<lambda>_. 0)"

definition snapshotAt :: "int \<Rightarrow> ServerNetMessage" where
  "snapshotAt k = \<lparr> ServerNetMessage.tick = k,
                    entityPositions = replicate NUM_ENTITIES \<lparr> x = 1 / 2, y = 1 / 2 \<rparr> \<rparr>"

definition startWorld :: World where
  "startWorld = initialWorld zeroRand"

definition startClient :: Client where
  "startClient = client (app startWorld)"

definition arrivedWorld :: World where
  "arrivedWorld =
     startWorld\<lparr> app := (app startWorld)\<lparr> client :=
       setInFlightMessages (inFlightMessages (sim (net (client (app startWorld))))
                              @ [\<lparr> message = snapshotAt 3, timeRemaining = 0 \<rparr>])
         (client (app startWorld)) \<rparr> \<rparr>"

definition deliveredWorld :: World where
  "deliveredWorld =
     (case frameStep 10 zeroRand arrivedWorld of Some (Inr w) \<Rightarrow> w | _ \<Rightarrow> arrivedWorld)"


text \<open>
  A client at tick 8 with interpolation delay 2, so with target time 6, whose buffer holds the
  snapshots of ticks 3, 5 and 7 with every entity at (1, 1), (0, 0) and (10, 10); and the
  client after the bracket search and interpolation at that target.
\<close>

definition snapshotWith :: "int \<Rightarrow> real \<Rightarrow> ServerNetMessage" where
  "snapshotWith k v = \<lparr> ServerNetMessage.tick = k,
                        entityPositions = replicate NUM_ENTITIES \<lparr> x = v, y = v \<rparr> \<rparr>"

definition scenarioClient :: Client where
  "scenarioClient =
     startClient\<lparr> Client.tick := 8,
                  net := (net startClient)\<lparr> lastReceivedTick := 7,
                           backBuffer := [snapshotWith 3 1, snapshotWith 5 0, snapshotWith 7 10] \<rparr> \<rparr>"

definition scenarioResult :: Client where
  "scenarioResult =
     (case bracketInterpolate 6 scenarioClient of Inr c \<Rightarrow> c | Inl err \<Rightarrow> scenarioClient)"

text \<open>The start with a latency of -100 ms, a jitter of -10 ms and a packet loss of -1/2.\<close>

definition badApp :: App where
  "badApp =
     (app startWorld)\<lparr> client := (client (app startWorld))\<lparr> net := (net (client (app startWorld)))\<lparr>
        sim := \<lparr> NetSim.latency = - 100, jitter = - 10, packetLoss = - (1 / 2),
                 inFlightMessages = [] \<rparr> \<rparr> \<rparr> \<rparr>"

definition badWorld :: World where
  "badWorld = \<lparr> app = badApp, lastFrameTime = 0 \<rparr>"


definition laterMessage :: ClientInFlightMessage where
  "laterMessage = \<lparr> message = snapshotAt 11, timeRemaining = 1 / 2 \<rparr>"


text \<open>
  The start with the server at tick 10 and a latency of 60 ms (jitter and loss are 0), and
  the same with every packet lost.
\<close>

definition scenarioAApp :: App where
  "scenarioAApp =
     (app startWorld)\<lparr> server := (server (app startWorld))\<lparr> Server.tick := 10 \<rparr>,
        client := (client (app startWorld))\<lparr> net := (net (client (app startWorld)))\<lparr>
          sim := \<lparr> NetSim.latency = 60, jitter = 0, packetLoss = 0, inFlightMessages = [] \<rparr> \<rparr> \<rparr> \<rparr>"

definition lossyApp :: App where
  "lossyApp =
     scenarioAApp\<lparr> client := (client scenarioAApp)\<lparr> net := (net (client scenarioAApp))\<lparr>
       sim := \<lparr> NetSim.latency = 60, jitter = 0, packetLoss = 1, inFlightMessages = [] \<rparr> \<rparr> \<rparr> \<rparr>"

text \<open>The start with a latency of 10 ms and a jitter of 20 ms.\<close>

definition jitteryApp :: App where
  "jitteryApp =
     (app startWorld)\<lparr> client := (client (app startWorld))\<lparr> net := (net (client (app startWorld)))\<lparr>
        sim := \<lparr> NetSim.latency = 10, jitter = 20, packetLoss = 0, inFlightMessages = [] \<rparr> \<rparr> \<rparr> \<rparr>"

text \<open>The start with the server's \<open>tickDuration\<close> set to 0.\<close>

definition zeroTickWorld :: World where
  "zeroTickWorld =
     startWorld\<lparr> app := (app startWorld)\<lparr> server :=
       (server (app startWorld))\<lparr> Server.tickDuration := 0 \<rparr> \<rparr> \<rparr>"

text \<open>
  A session in which every draw is 1/2, so that every server entity starts at (1/2, 1/2)
  heading along the negative x axis and no entity turns; the states after its first frame,
  100 ms after the start, and after its second, 100 ms later. With the initial latency of
  200 ms each frame's snapshot is delivered in the frame that sends it.
\<close>

definition halfRand :: rand where
  "halfRand = (\<lambda>_. 1 / 2)"

definition firstFrameWorld :: World where
  "firstFrameWorld =
     (case frameStep 100 halfRand (initialWorld halfRand) of
        Some (Inr w) \<Rightarrow> w | _ \<Rightarrow> initialWorld halfRand)"

definition secondFrameWorld :: World where
  "secondFrameWorld =
     (case frameStep 200 halfRand firstFrameWorld of
        Some (Inr w) \<Rightarrow> w | _ \<Rightarrow> firstFrameWorld)"

text \<open>
  The arrival of a message from outside, and the state in which the snapshot of tick 5 has
  arrived twice after \<open>deliveredWorld\<close> and a frame, 1 ms later, has delivered both.
\<close>

definition arrive :: "ClientInFlightMessage \<Rightarrow> World \<Rightarrow> World" where
  "arrive im w =
     w\<lparr> app := (app w)\<lparr> client :=
          setInFlightMessages (inFlightMessages (sim (net (client (app w)))) @ [im])
            (client (app w)) \<rparr> \<rparr>"

definition twiceArrivedWorld :: World where
  "twiceArrivedWorld =
     arrive \<lparr> message = snapshotAt 5, timeRemaining = 0 \<rparr>
       (arrive \<lparr> message = snapshotAt 5, timeRemaining = 0 \<rparr> deliveredWorld)"

definition twiceDeliveredWorld :: World where
  "twiceDeliveredWorld =
     (case frameStep 11 zeroRand twiceArrivedWorld of
        Some (Inr w) \<Rightarrow> w | _ \<Rightarrow> twiceArrivedWorld)"

section \<open>Facts about the rounding\<close>

lemma exponentFrom_least:
  assumes "e0 \<le> e" and "e \<le> e0 + int k" and "v < 2 ^ 53 * 2 powi e"
    and "e0 < e \<Longrightarrow> 2 ^ 53 * 2 powi (e - 1) \<le> v"
  shows "exponentFrom k e0 v = e"
  using assms
proof (induction k arbitrary: e0)
  case 0
  then show ?case by simp
next
  case (Suc k)
  show ?case
  proof (cases "v < 2 ^ 53 * 2 powi e0")
    case True
    have "e = e0"
    proof (rule ccontr)
      assume "e \<noteq> e0"
      with Suc.prems(1) have lt: "e0 < e" by simp
      from Suc.prems(4) [OF lt] True have "(2::real) ^ 53 * 2 powi (e - 1) < 2 ^ 53 * 2 powi e0"
        by simp
      then have "(2::real) powi (e - 1) < 2 powi e0" by simp
      moreover from lt have "(2::real) powi e0 \<le> 2 powi (e - 1)"
        by (intro power_int_increasing) simp_all
      ultimately show False by simp
    qed
    with True show ?thesis by simp
  next
    case False
    with Suc.prems(3) have "e \<noteq> e0" by auto
    with Suc.prems(1) have "e0 + 1 \<le> e" by simp
    moreover from Suc.prems(2) have "e \<le> e0 + 1 + int k" by simp
    moreover have "e0 + 1 < e \<Longrightarrow> 2 ^ 53 * 2 powi (e - 1) \<le> v"
      using Suc.prems(4) by simp
    ultimately have "exponentFrom k (e0 + 1) v = e"
      using Suc.prems(3) by (intro Suc.IH)
    with False show ?thesis by simp
  qed
qed

lemma exponent64_eq:
  assumes "- 1074 \<le> e" and "e \<le> 971" and "v < 2 ^ 53 * 2 powi e"
    and "2 ^ 52 * 2 powi e \<le> v"
  shows "exponent64 v = e"
  unfolding exponent64_def
proof (rule exponentFrom_least)
  from assms(1) show "- 1074 \<le> e" .
  from assms(2) show "e \<le> - 1074 + int 2045" by simp
  from assms(3) show "v < 2 ^ 53 * 2 powi e" .
  have "(2::real) powi e = 2 powi (e - 1) * 2"
    by (simp add: power_int_diff)
  with assms(4) show "2 ^ 53 * 2 powi (e - 1) \<le> v" by simp
qed

lemma round64_at:
  assumes "- 1074 \<le> e" and "e \<le> 971" and "\<bar>v\<bar> < 2 ^ 53 * 2 powi e"
    and "2 ^ 52 * 2 powi e \<le> \<bar>v\<bar>"
  shows "round64 v = sgn v * of_int (roundHalfEven (\<bar>v\<bar> / 2 powi e)) * 2 powi e"
  unfolding round64_def exponent64_eq [OF assms] ..


lemma roundHalfEven_nonneg: "0 \<le> q \<Longrightarrow> 0 \<le> roundHalfEven q"
  by (auto simp: roundHalfEven_def Let_def)

lemma round64_nonpos: "v \<le> 0 \<Longrightarrow> round64 v \<le> 0"
proof -
  assume "v \<le> 0"
  have "0 \<le> real_of_int (roundHalfEven (\<bar>v\<bar> / 2 powi exponent64 \<bar>v\<bar>)) * 2 powi exponent64 \<bar>v\<bar>"
    by (intro mult_nonneg_nonneg) (simp_all add: roundHalfEven_nonneg)
  moreover from \<open>v \<le> 0\<close> have "sgn v \<le> 0" by (simp add: sgn_if)
  ultimately show ?thesis
    unfolding round64_def by (simp add: mult.assoc mult_nonpos_nonneg)
qed

lemma round64_nonneg: "0 \<le> v \<Longrightarrow> 0 \<le> round64 v"
proof -
  assume "0 \<le> v"
  have "0 \<le> real_of_int (roundHalfEven (\<bar>v\<bar> / 2 powi exponent64 \<bar>v\<bar>)) * 2 powi exponent64 \<bar>v\<bar>"
    by (intro mult_nonneg_nonneg) (simp_all add: roundHalfEven_nonneg)
  moreover from \<open>0 \<le> v\<close> have "0 \<le> sgn v" by (simp add: sgn_if)
  ultimately show ?thesis
    unfolding round64_def by (simp add: mult.assoc)
qed

section \<open>Facts about the array helpers\<close>

lemma findIndex_range: "findIndex P xs = - 1 \<or> (0 \<le> findIndex P xs \<and> findIndex P xs < int (length xs))"
  by (induction xs) (auto simp: Let_def)

lemma findIndex_hit: "0 \<le> findIndex P xs \<Longrightarrow> P (xs ! nat (findIndex P xs))"
proof (induction xs)
  case Nil
  then show ?case by simp
next
  case (Cons a as)
  show ?case
  proof (cases "P a")
    case True
    then show ?thesis by simp
  next
    case False
    with Cons.prems have r: "0 \<le> findIndex P as" by (simp add: Let_def split: if_splits)
    with False Cons.IH show ?thesis by (simp add: Let_def nat_add_distrib)
  qed
qed

lemma findIndex_before:
  "0 \<le> j \<Longrightarrow> j < findIndex P xs \<Longrightarrow> \<not> P (xs ! nat j)"
proof (induction xs arbitrary: j)
  case Nil
  then show ?case by simp
next
  case (Cons a as)
  show ?case
  proof (cases "P a")
    case True
    with Cons.prems show ?thesis by simp
  next
    case False
    show ?thesis
    proof (cases "j = 0")
      case True
      with False show ?thesis by simp
    next
      case nz: False
      with Cons.prems have j1: "0 \<le> j - 1" by simp
      from Cons.prems False have "j - 1 < findIndex P as"
        by (simp add: Let_def split: if_splits)
      from Cons.IH [OF j1 this] nz Cons.prems(1) show ?thesis
        by (simp add: nat_diff_distrib' nth_Cons')
    qed
  qed
qed

lemma findIndex_drop:
  "1 \<le> findIndex P xs \<Longrightarrow> findIndex P (drop (nat (findIndex P xs - 1)) xs) = 1"
proof (induction xs)
  case Nil
  then show ?case by simp
next
  case (Cons a as)
  from Cons.prems have na: "\<not> P a" by (auto split: if_splits)
  with Cons.prems have r0: "0 \<le> findIndex P as" and idx: "findIndex P (a # as) = findIndex P as + 1"
    by (auto simp: Let_def split: if_splits)
  show ?case
  proof (cases "findIndex P as = 0")
    case True
    with na show ?thesis by (simp add: Let_def)
  next
    case False
    with r0 have r1: "1 \<le> findIndex P as" by simp
    then have "drop (nat (findIndex P as)) (a # as) = drop (nat (findIndex P as - 1)) as"
      by (simp add: drop_Cons' nat_diff_distrib')
    with Cons.IH [OF r1] idx show ?thesis by simp
  qed
qed

lemma foldl_add_sum_list: "foldl (\<lambda>a c. a + c) (a::real) xs = a + sum_list xs"
  by (induction xs arbitrary: a) simp_all

section \<open>What each operation reads and writes\<close>

subsection \<open>\<open>onReceiveServerMessage\<close>\<close>

lemma onReceive_lastReceivedTick:
  "lastReceivedTick (net (onReceiveServerMessage c m)) =
     (if ServerNetMessage.tick m < lastReceivedTick (net c) then lastReceivedTick (net c)
      else ServerNetMessage.tick m)"
  by (simp add: onReceiveServerMessage_def Let_def)

lemma onReceive_backBuffer:
  "backBuffer (net (onReceiveServerMessage c m)) =
     (if ServerNetMessage.tick m < lastReceivedTick (net c) then backBuffer (net c)
      else backBuffer (net c) @ [m])"
  by (simp add: onReceiveServerMessage_def Let_def)

lemma onReceive_sim: "sim (net (onReceiveServerMessage c m)) = sim (net c)"
  by (simp add: onReceiveServerMessage_def Let_def)

lemma onReceive_interpolationDelay:
  "interpolationDelay (net (onReceiveServerMessage c m)) = interpolationDelay (net c)"
  by (simp add: onReceiveServerMessage_def Let_def)

lemma onReceive_tickDuration_ge:
  "SERVER_TICK_DURATION * 0.9 \<le> Client.tickDuration (onReceiveServerMessage c m)"
  unfolding onReceiveServerMessage_def Let_def
  by (simp add: le_max_iff_disj del: times_divide_eq_right)


subsection \<open>The delivery filter\<close>

lemma deliverMessages_append:
  "deliverMessages rdt (ims1 @ ims2) c =
     (fst (deliverMessages rdt ims1 c)
        @ fst (deliverMessages rdt ims2 (snd (deliverMessages rdt ims1 c))),
      snd (deliverMessages rdt ims2 (snd (deliverMessages rdt ims1 c))))"
  by (induction ims1 arbitrary: c) (simp_all add: Let_def case_prod_beta)

text \<open>An invariant of the client that every delivery keeps is kept by the whole filter.\<close>

lemma deliverMessages_invariant:
  assumes "\<And>c m. P c \<Longrightarrow> P (onReceiveServerMessage c m)" and "P c"
  shows "P (snd (deliverMessages rdt ims c))"
  using assms(2)
proof (induction ims arbitrary: c)
  case Nil
  then show ?case by simp
next
  case (Cons im ims)
  show ?case
  proof (cases "round64 (timeRemaining im - rdt) \<le> 0")
    case True
    from Cons.prems have "P (onReceiveServerMessage c (message im))" by (rule assms(1))
    from Cons.IH [OF this] True show ?thesis by (simp add: Let_def)
  next
    case False
    with Cons.IH [OF Cons.prems] show ?thesis by (simp add: Let_def case_prod_beta)
  qed
qed

lemma deliverMessages_kept:
  "fst (deliverMessages rdt ims c) = map (decrement rdt) (filter (\<lambda>im. \<not> due rdt im) ims)"
  by (induction ims arbitrary: c) (simp_all add: Let_def case_prod_beta due_def decrement_def)

lemma deliverMessages_delivered:
  "snd (deliverMessages rdt ims c)
     = foldl onReceiveServerMessage c (map message (filter (due rdt) ims))"
  by (induction ims arbitrary: c) (simp_all add: Let_def case_prod_beta due_def)

lemma clientReceive_invariant:
  assumes "\<And>c m. P c \<Longrightarrow> P (onReceiveServerMessage c m)"
    and "\<And>c ims. P c \<Longrightarrow> P (setInFlightMessages ims c)"
    and "P c"
  shows "P (clientReceive rdt c)"
proof -
  have "P (snd (deliverMessages rdt (inFlightMessages (sim (net c))) c))"
    using assms(1,3) by (rule deliverMessages_invariant)
  then show ?thesis
    unfolding clientReceive_def
    by (simp add: assms(2) [unfolded setInFlightMessages_def] case_prod_beta)
qed

subsection \<open>The clock\<close>

lemma clientTickLoop_result:
  assumes "clientTickLoop c = Some c'"
  shows "c' = c\<lparr> Client.tickAccumulator := Client.tickAccumulator c', Client.tick := Client.tick c' \<rparr>
         \<and> Client.tickAccumulator c' \<le> Client.tickDuration c'
         \<and> (0 \<le> Client.tickAccumulator c \<longrightarrow> 0 \<le> Client.tickAccumulator c')
         \<and> Client.tick c \<le> Client.tick c'"
proof (rule clientTickLoop.raw_induct [where P = "\<lambda>a b.
         b = a\<lparr> Client.tickAccumulator := Client.tickAccumulator b, Client.tick := Client.tick b \<rparr>
         \<and> Client.tickAccumulator b \<le> Client.tickDuration b
         \<and> (0 \<le> Client.tickAccumulator a \<longrightarrow> 0 \<le> Client.tickAccumulator b)
         \<and> Client.tick a \<le> Client.tick b", OF _ assms])
  fix f :: "Client \<Rightarrow> Client option" and a b :: Client
  assume IH: "\<And>u v. f u = Some v \<Longrightarrow>
         v = u\<lparr> Client.tickAccumulator := Client.tickAccumulator v, Client.tick := Client.tick v \<rparr>
         \<and> Client.tickAccumulator v \<le> Client.tickDuration v
         \<and> (0 \<le> Client.tickAccumulator u \<longrightarrow> 0 \<le> Client.tickAccumulator v)
         \<and> Client.tick u \<le> Client.tick v"
    and eq: "(if Client.tickDuration a < Client.tickAccumulator a
              then f (a\<lparr> Client.tickAccumulator := Client.tickAccumulator a - Client.tickDuration a,
                        Client.tick := Client.tick a + 1 \<rparr>)
              else Some a) = Some b"
  show "b = a\<lparr> Client.tickAccumulator := Client.tickAccumulator b, Client.tick := Client.tick b \<rparr>
         \<and> Client.tickAccumulator b \<le> Client.tickDuration b
         \<and> (0 \<le> Client.tickAccumulator a \<longrightarrow> 0 \<le> Client.tickAccumulator b)
         \<and> Client.tick a \<le> Client.tick b"
  proof (cases "Client.tickDuration a < Client.tickAccumulator a")
    case True
    let ?a1 = "a\<lparr> Client.tickAccumulator := Client.tickAccumulator a - Client.tickDuration a,
                  Client.tick := Client.tick a + 1 \<rparr>"
    from True eq have "f ?a1 = Some b" by simp
    from IH [OF this] have
      b: "b = ?a1\<lparr> Client.tickAccumulator := Client.tickAccumulator b, Client.tick := Client.tick b \<rparr>"
      and le: "Client.tickAccumulator b \<le> Client.tickDuration b"
      and nn: "0 \<le> Client.tickAccumulator ?a1 \<longrightarrow> 0 \<le> Client.tickAccumulator b"
      and tk: "Client.tick ?a1 \<le> Client.tick b"
      by blast+
    from b have "b = a\<lparr> Client.tickAccumulator := Client.tickAccumulator b, Client.tick := Client.tick b \<rparr>"
      by simp
    moreover have td: "Client.tickDuration b = Client.tickDuration a"
      by (subst b) simp
    moreover from nn True have "0 \<le> Client.tickAccumulator a \<longrightarrow> 0 \<le> Client.tickAccumulator b"
      by simp
    moreover from tk have "Client.tick a \<le> Client.tick b" by simp
    ultimately show ?thesis using le by blast
  next
    case False
    with eq have "b = a" by simp
    with False show ?thesis by simp
  qed
qed


lemma clientClock_result:
  assumes "clientClock rdt c = Some c'"
  shows "c' = c\<lparr> Client.tickAccumulator := Client.tickAccumulator c', Client.tick := Client.tick c' \<rparr>"
    and "\<not> clockPaused c \<Longrightarrow> Client.tickAccumulator c' \<le> Client.tickDuration c'"
    and "0 \<le> rdt \<Longrightarrow> 0 \<le> Client.tickAccumulator c \<Longrightarrow> 0 \<le> Client.tickAccumulator c'"
    and "Client.tick c \<le> Client.tick c'"
proof -
  let ?c0 = "c\<lparr> Client.tickAccumulator := Client.tickAccumulator c + rdt \<rparr>"
  show "c' = c\<lparr> Client.tickAccumulator := Client.tickAccumulator c', Client.tick := Client.tick c' \<rparr>"
  proof (cases "clockPaused c")
    case True
    with assms show ?thesis by (simp add: clientClock_def)
  next
    case False
    with assms have "clientTickLoop ?c0 = Some c'" by (simp add: clientClock_def)
    from clientTickLoop_result [OF this]
    have "c' = ?c0\<lparr> Client.tickAccumulator := Client.tickAccumulator c', Client.tick := Client.tick c' \<rparr>"
      by blast
    then show ?thesis by simp
  qed
  show "Client.tickAccumulator c' \<le> Client.tickDuration c'" if "\<not> clockPaused c"
  proof -
    from that assms have "clientTickLoop ?c0 = Some c'" by (simp add: clientClock_def)
    from clientTickLoop_result [OF this] show ?thesis by blast
  qed
  show "0 \<le> Client.tickAccumulator c'" if "0 \<le> rdt" "0 \<le> Client.tickAccumulator c"
  proof (cases "clockPaused c")
    case True
    with assms that show ?thesis by (simp add: clientClock_def)
  next
    case False
    with assms have "clientTickLoop ?c0 = Some c'" by (simp add: clientClock_def)
    from clientTickLoop_result [OF this] that show ?thesis by simp
  qed
  show "Client.tick c \<le> Client.tick c'"
  proof (cases "clockPaused c")
    case True
    with assms show ?thesis by (simp add: clientClock_def)
  next
    case False
    with assms have "clientTickLoop ?c0 = Some c'" by (simp add: clientClock_def)
    from clientTickLoop_result [OF this] show ?thesis by simp
  qed
qed

lemma clientClock_net: "clientClock rdt c = Some c' \<Longrightarrow> net c' = net c"
  by (drule clientClock_result(1)) (erule ssubst, simp)

lemma clientClock_tickDuration:
  "clientClock rdt c = Some c' \<Longrightarrow> Client.tickDuration c' = Client.tickDuration c"
  by (drule clientClock_result(1)) (erule ssubst, simp)


subsection \<open>Rendering\<close>

lemma bracketInterpolate_result:
  assumes "bracketInterpolate t c = Inr c'"
  shows "\<exists>es. c' = c\<lparr> prevNetState := prevNetState c', nextNetState := nextNetState c',
                net := (net c)\<lparr> backBuffer :=
                   splice0 (findIndex (\<lambda>m. real_of_int (ServerNetMessage.tick m) > t)
                              (backBuffer (net c)) - 1) (backBuffer (net c)) \<rparr>,
                Client.game := \<lparr> entities = es \<rparr> \<rparr>"
  using assms unfolding bracketInterpolate_def Let_def
  by (auto split: option.splits sum.splits intro: exI [of _ "entities (Client.game c)"])

lemma clientRender_result:
  assumes "clientRender c = Inr c'"
  shows "\<exists>k es. c' = c\<lparr> prevNetState := prevNetState c', nextNetState := nextNetState c',
                net := (net c)\<lparr> backBuffer := drop k (backBuffer (net c)) \<rparr>,
                Client.game := \<lparr> entities = es \<rparr>, clockPaused := clockPaused c' \<rparr>"
proof (cases "length (backBuffer (net c)) = 0 \<or>
              targetSubTickOf c > real_of_int (ServerNetMessage.tick (last (backBuffer (net c))))")
  case True
  with assms have "c' = (if \<not> clockPaused c then c\<lparr> clockPaused := True \<rparr> else c)"
    by (simp add: clientRender_def Let_def)
  then have "c' = c\<lparr> prevNetState := prevNetState c', nextNetState := nextNetState c',
                net := (net c)\<lparr> backBuffer := drop 0 (backBuffer (net c)) \<rparr>,
                Client.game := \<lparr> entities = entities (Client.game c) \<rparr>,
                clockPaused := clockPaused c' \<rparr>"
    by (simp split: if_splits)
  then show ?thesis by blast
next
  case False
  with assms have "bracketInterpolate (targetSubTickOf c) c = Inr c'"
    by (simp add: clientRender_def Let_def)
  from bracketInterpolate_result [OF this] obtain es where
    c': "c' = c\<lparr> prevNetState := prevNetState c', nextNetState := nextNetState c',
                net := (net c)\<lparr> backBuffer :=
                   splice0 (findIndex (\<lambda>m. real_of_int (ServerNetMessage.tick m) > targetSubTickOf c)
                              (backBuffer (net c)) - 1) (backBuffer (net c)) \<rparr>,
                Client.game := \<lparr> entities = es \<rparr> \<rparr>" by blast
  have cp: "clockPaused c' = clockPaused c"
    by (subst c') simp
  have "c' = c\<lparr> prevNetState := prevNetState c', nextNetState := nextNetState c',
                net := (net c)\<lparr> backBuffer :=
                   drop (nat (findIndex (\<lambda>m. real_of_int (ServerNetMessage.tick m) > targetSubTickOf c)
                              (backBuffer (net c)) - 1)) (backBuffer (net c)) \<rparr>,
                Client.game := \<lparr> entities = es \<rparr>, clockPaused := clockPaused c' \<rparr>"
    unfolding cp by (subst c') (simp add: splice0_def)
  then show ?thesis by blast
qed

subsection \<open>Sending\<close>

lemma serverNetSend_result:
  "fst (serverNetSend rnd a) =
     a\<lparr> client := setInFlightMessages
          (inFlightMessages (sim (net (client (fst (serverNetSend rnd a)))))) (client a) \<rparr>"
  by (simp add: serverNetSend_def Let_def setInFlightMessages_def)

subsection \<open>The server loop\<close>

lemma serverTick_fields:
  "Server.tickDuration (fst (serverTick dt rnd s)) = Server.tickDuration s"
  "Server.tickAccumulator (fst (serverTick dt rnd s)) = Server.tickAccumulator s"
  "Server.tick (fst (serverTick dt rnd s)) = Server.tick s + 1"
  by (simp_all add: serverTick_def case_prod_beta)


lemma serverTickLoop_tickDuration:
  assumes "serverTickLoop rnd ticked s = Some res"
  shows "Server.tickDuration (fst res) = Server.tickDuration s"
proof (rule serverTickLoop.raw_induct [where P = "\<lambda>r b a res.
          Server.tickDuration (fst res) = Server.tickDuration a", OF _ assms])
  fix f :: "rand \<Rightarrow> bool \<Rightarrow> Server \<Rightarrow> (Server \<times> bool \<times> rand) option"
    and r :: rand and b :: bool and a :: Server and res' :: "Server \<times> bool \<times> rand"
  assume IH: "\<And>r b a res. f r b a = Some res \<Longrightarrow>
                 Server.tickDuration (fst res) = Server.tickDuration a"
    and eq: "(if Server.tickDuration a < Server.tickAccumulator a
              then f (snd (serverTick (Server.tickDuration a) r
                      (a\<lparr> Server.tickAccumulator := Server.tickAccumulator a - Server.tickDuration a \<rparr>)))
                     True
                     (fst (serverTick (Server.tickDuration a) r
                      (a\<lparr> Server.tickAccumulator := Server.tickAccumulator a - Server.tickDuration a \<rparr>)))
              else Some (a, b, r)) = Some res'"
  show "Server.tickDuration (fst res') = Server.tickDuration a"
  proof (cases "Server.tickDuration a < Server.tickAccumulator a")
    case True
    with eq have "f (snd (serverTick (Server.tickDuration a) r
                      (a\<lparr> Server.tickAccumulator := Server.tickAccumulator a - Server.tickDuration a \<rparr>)))
                     True
                     (fst (serverTick (Server.tickDuration a) r
                      (a\<lparr> Server.tickAccumulator := Server.tickAccumulator a - Server.tickDuration a \<rparr>)))
                  = Some res'" by simp
    from IH [OF this] show ?thesis by (simp add: serverTick_fields)
  next
    case False
    with eq show ?thesis by auto
  qed
qed

subsection \<open>The frame, taken apart\<close>

lemma frameStep_client:
  assumes "frameStep t rnd w = Some (Inr w')"
  shows "\<exists>ims c1.
           clientClock ((t - lastFrameTime w) / 1000)
             (clientReceive ((t - lastFrameTime w) / 1000)
                (setInFlightMessages ims (client (app w)))) = Some c1
           \<and> clientRender c1 = Inr (client (app w'))"
    and "lastFrameTime w' = t"
proof -
  let ?rdt = "(t - lastFrameTime w) / 1000"
  let ?s0 = "(server (app w))\<lparr> Server.tickAccumulator := Server.tickAccumulator (server (app w)) + ?rdt \<rparr>"
  from assms obtain s1 ticked rnd1 where
    loop: "serverTickLoop rnd False ?s0 = Some (s1, ticked, rnd1)"
    by (auto simp: frameStep_def Let_def split: option.splits)
  let ?a1 = "(app w)\<lparr> server := s1 \<rparr>"
  let ?a2 = "if ticked then fst (serverNetSend rnd1 ?a1) else ?a1"
  from assms loop obtain c where
    upd: "clientUpdate ?rdt (client ?a2) = Some (Inr c)"
    and w': "w' = \<lparr> app = ?a2\<lparr> client := c \<rparr>, lastFrameTime = t \<rparr>"
    by (auto simp: frameStep_def Let_def split: option.splits sum.splits)
  from w' show "lastFrameTime w' = t" by simp
  have "\<exists>ims. client ?a2 = setInFlightMessages ims (client (app w))"
  proof (cases ticked)
    case True
    have "client (fst (serverNetSend rnd1 ?a1)) = setInFlightMessages
            (inFlightMessages (sim (net (client (fst (serverNetSend rnd1 ?a1)))))) (client ?a1)"
      by (subst serverNetSend_result) simp
    with True show ?thesis by auto
  next
    case False
    have "client (app w) = setInFlightMessages
            (inFlightMessages (sim (net (client (app w))))) (client (app w))"
      by (simp add: setInFlightMessages_def)
    with False show ?thesis by auto
  qed
  then obtain ims where ims: "client ?a2 = setInFlightMessages ims (client (app w))" ..
  from upd obtain c1 where
    "clientClock ?rdt (clientReceive ?rdt (client ?a2)) = Some c1" and "clientRender c1 = Inr c"
    by (auto simp: clientUpdate_def split: option.splits)
  with ims w' show "\<exists>ims c1.
           clientClock ?rdt (clientReceive ?rdt (setInFlightMessages ims (client (app w)))) = Some c1
           \<and> clientRender c1 = Inr (client (app w'))"
    by auto
qed

lemma frameStep_client_invariant:
  assumes fr: "frameStep t rnd w = Some (Inr w')" and P0: "P (client (app w))"
    and recv: "\<And>c m. P c \<Longrightarrow> P (onReceiveServerMessage c m)"
    and infl: "\<And>c ims. P c \<Longrightarrow> P (setInFlightMessages ims c)"
    and clock: "\<And>c c'. P c \<Longrightarrow> clientClock ((t - lastFrameTime w) / 1000) c = Some c' \<Longrightarrow> P c'"
    and render: "\<And>c c'. P c \<Longrightarrow> clientRender c = Inr c' \<Longrightarrow> P c'"
  shows "P (client (app w'))"
proof -
  from frameStep_client(1) [OF fr] obtain ims c1 where
    ck: "clientClock ((t - lastFrameTime w) / 1000)
           (clientReceive ((t - lastFrameTime w) / 1000)
              (setInFlightMessages ims (client (app w)))) = Some c1"
    and rd: "clientRender c1 = Inr (client (app w'))" by blast
  from P0 have "P (setInFlightMessages ims (client (app w)))" by (rule infl)
  with recv infl have "P (clientReceive ((t - lastFrameTime w) / 1000)
              (setInFlightMessages ims (client (app w))))"
    by (rule clientReceive_invariant)
  then have "P c1" using ck by (rule clock)
  then show ?thesis using rd by (rule render)
qed

text \<open>The same for a whole step, and for every state of a run.\<close>

lemma step_client_invariant:
  assumes st: "step w w'" and P0: "P (client (app w))"
    and recv: "\<And>c m. P c \<Longrightarrow> P (onReceiveServerMessage c m)"
    and infl: "\<And>c ims. P c \<Longrightarrow> P (setInFlightMessages ims c)"
    and clock: "\<And>c c' rdt. 0 \<le> rdt \<Longrightarrow> P c \<Longrightarrow> clientClock rdt c = Some c' \<Longrightarrow> P c'"
    and render: "\<And>c c'. P c \<Longrightarrow> clientRender c = Inr c' \<Longrightarrow> P c'"
  shows "P (client (app w'))"
  using st
proof cases
  case (frame t rnd)
  from frame(1) have rdt: "0 \<le> (t - lastFrameTime w) / 1000" by simp
  from frame(3) P0 recv infl show ?thesis
  proof (rule frameStep_client_invariant [where P = P])
    fix c c'
    assume "P c" and "clientClock ((t - lastFrameTime w) / 1000) c = Some c'"
    with rdt show "P c'" by (rule clock)
  next
    fix c c'
    assume "P c" and "clientRender c = Inr c'"
    then show "P c'" by (rule render)
  qed
next
  case (arrival im)
  have "P (setInFlightMessages (inFlightMessages (sim (net (client (app w)))) @ [im])
             (client (app w)))"
    using P0 by (rule infl)
  then show ?thesis unfolding arrival by simp
qed

lemma reachable_client_invariant:
  assumes re: "reachable w" and P0: "\<And>rnd. P (client (app (initialWorld rnd)))"
    and recv: "\<And>c m. P c \<Longrightarrow> P (onReceiveServerMessage c m)"
    and infl: "\<And>c ims. P c \<Longrightarrow> P (setInFlightMessages ims c)"
    and clock: "\<And>c c' rdt. 0 \<le> rdt \<Longrightarrow> P c \<Longrightarrow> clientClock rdt c = Some c' \<Longrightarrow> P c'"
    and render: "\<And>c c'. P c \<Longrightarrow> clientRender c = Inr c' \<Longrightarrow> P c'"
  shows "P (client (app w))"
  using re
proof induction
  case (init rnd)
  show ?case by (rule P0)
next
  case (after w w')
  from after(2) after(3) recv infl clock render show ?case
    by (rule step_client_invariant [where P = P])
qed

lemma initial_client:
  "client (app (initialWorld rnd)) =
     (client initialApp)\<lparr> Client.game := \<lparr> entities = initClientEntities NUM_ENTITIES \<rparr> \<rparr>"
  by (simp add: initialWorld_def initAppState_def initialApp_def)

lemma clientRender_fields:
  assumes "clientRender c = Inr c'"
  shows "Client.tickDuration c' = Client.tickDuration c"
    and "Client.tickAccumulator c' = Client.tickAccumulator c"
    and "Client.tick c' = Client.tick c"
    and "lastReceivedTick (net c') = lastReceivedTick (net c)"
    and "sim (net c') = sim (net c)"
    and "measured (net c') = measured (net c)"
    and "interpolationDelay (net c') = interpolationDelay (net c)"
    and "\<exists>k. backBuffer (net c') = drop k (backBuffer (net c))"
proof -
  from clientRender_result [OF assms] obtain k es where
    eq: "c' = c\<lparr> prevNetState := prevNetState c', nextNetState := nextNetState c',
                net := (net c)\<lparr> backBuffer := drop k (backBuffer (net c)) \<rparr>,
                Client.game := \<lparr> entities = es \<rparr>, clockPaused := clockPaused c' \<rparr>"
    by blast
  show "Client.tickDuration c' = Client.tickDuration c" by (subst eq) simp
  show "Client.tickAccumulator c' = Client.tickAccumulator c" by (subst eq) simp
  show "Client.tick c' = Client.tick c" by (subst eq) simp
  show "lastReceivedTick (net c') = lastReceivedTick (net c)" by (subst eq) simp
  show "sim (net c') = sim (net c)" by (subst eq) simp
  show "measured (net c') = measured (net c)" by (subst eq) simp
  show "interpolationDelay (net c') = interpolationDelay (net c)" by (subst eq) simp
  have "backBuffer (net c') = drop k (backBuffer (net c))" by (subst eq) simp
  then show "\<exists>k. backBuffer (net c') = drop k (backBuffer (net c))" ..
qed

section \<open>The concrete run\<close>

lemmas run_defs =
  frameStep_def clientUpdate_def clientReceive_def clientClock_def clientRender_def
  bracketInterpolate_def onReceiveServerMessage_def serverNetSend_def setInFlightMessages_def
  initialWorld_def initAppState_def initialApp_def initClientEntities_def NUM_ENTITIES_def
  SERVER_TICK_DURATION_def MAX_JITTER_ROLLING_AVERAGE_def targetSubTickOf_def splice0_def
  arrayGet_def zeroRand_def snapshotAt_def startWorld_def startClient_def arrivedWorld_def
  advance_rand_def interpolationAlpha_def Let_def eval_nat_numeral round64_nonpos

lemma rand_ok_zeroRand: "rand_ok zeroRand"
  by (simp add: rand_ok_def zeroRand_def)

lemma reachable_startWorld: "reachable startWorld"
  unfolding startWorld_def using rand_ok_zeroRand by (rule reachable.init)

lemma step_start_arrived: "step startWorld arrivedWorld"
  unfolding arrivedWorld_def by (rule step.arrival)

lemma frameStep_arrivedWorld: "frameStep 10 zeroRand arrivedWorld = Some (Inr deliveredWorld)"
proof -
  have "\<exists>w'. frameStep 10 zeroRand arrivedWorld = Some (Inr w')"
    by (simp add: run_defs serverTickLoop.simps clientTickLoop.simps)
  then show ?thesis by (auto simp: deliveredWorld_def)
qed

lemma step_arrived_delivered: "step arrivedWorld deliveredWorld"
proof (rule step.frame)
  show "lastFrameTime arrivedWorld \<le> 10" by (simp add: run_defs)
  show "rand_ok zeroRand" by (rule rand_ok_zeroRand)
  show "frameStep 10 zeroRand arrivedWorld = Some (Inr deliveredWorld)"
    by (rule frameStep_arrivedWorld)
qed

lemma reachable_deliveredWorld: "reachable deliveredWorld"
  using reachable_startWorld step_start_arrived step_arrived_delivered
  by (blast intro: reachable.after)

lemma deliveredWorld_client:
  "lastReceivedTick (net (client (app deliveredWorld))) = 3"
  "Client.tickDuration (client (app deliveredWorld)) = 97 / 9000"
  "Client.tickAccumulator (client (app deliveredWorld)) = 1 / 100"
  "map ServerNetMessage.tick (backBuffer (net (client (app deliveredWorld)))) = [3]"
  "jitterBackBuffer (measured (net (client (app deliveredWorld)))) = [3]"
  "\<not> clockPaused (client (app deliveredWorld))"
  unfolding deliveredWorld_def
  by (simp_all add: run_defs serverTickLoop.simps clientTickLoop.simps)

lemma startWorld_client:
  "lastReceivedTick (net (client (app startWorld))) = 0"
  "Client.tickDuration (client (app startWorld)) = 1 / 90"
  "Client.tickAccumulator (client (app startWorld)) = 0"
  "backBuffer (net (client (app startWorld))) = []"
  by (simp_all add: run_defs)

section \<open>lastReceivedTick never decreases\<close>

lemma step_lastReceivedTick:
  assumes "step w w'"
  shows "lastReceivedTick (net (client (app w))) \<le> lastReceivedTick (net (client (app w')))"
proof -
  let ?P = "\<lambda>c::Client. lastReceivedTick (net (client (app w))) \<le> lastReceivedTick (net c)"
  from assms show ?thesis
  proof (rule step_client_invariant [where P = ?P])
    show "?P (client (app w))" by simp
  next
    fix c m assume "?P c"
    then show "?P (onReceiveServerMessage c m)" by (simp add: onReceive_lastReceivedTick)
  next
    fix c ims assume "?P c"
    then show "?P (setInFlightMessages ims c)" by (simp add: setInFlightMessages_def)
  next
    fix c c' rdt assume "?P c" and "clientClock rdt c = Some c'"
    then show "?P c'" by (simp add: clientClock_net)
  next
    fix c c' assume "?P c" and "clientRender c = Inr c'"
    then show "?P c'" by (simp add: clientRender_fields(4))
  qed
qed

text \<open>
  C6. \<open>lastReceivedTick\<close> (the spec's lastAcceptedTick) never decreases: not in a call of
  \<open>onReceiveServerMessage\<close>, whatever the message, and not along any run, whatever frames and
  arrivals it is made of.
\<close>

theorem lastReceivedTick_monotone:
  "lastReceivedTick (net c) \<le> lastReceivedTick (net (onReceiveServerMessage c m))
   \<and> (step\<^sup>*\<^sup>* w w' \<longrightarrow>
        lastReceivedTick (net (client (app w))) \<le> lastReceivedTick (net (client (app w'))))"
proof (intro conjI impI)
  show "lastReceivedTick (net c) \<le> lastReceivedTick (net (onReceiveServerMessage c m))"
    by (simp add: onReceive_lastReceivedTick)
next
  assume "step\<^sup>*\<^sup>* w w'"
  then show "lastReceivedTick (net (client (app w))) \<le> lastReceivedTick (net (client (app w')))"
  proof (induction rule: rtranclp_induct)
    case base
    show ?case by simp
  next
    case (step u v)
    from step.hyps(2) have "lastReceivedTick (net (client (app u))) \<le> lastReceivedTick (net (client (app v)))"
      by (rule step_lastReceivedTick)
    with step.IH show ?case by simp
  qed
qed

theorem lastReceivedTick_monotone_witness:
  "step\<^sup>*\<^sup>* startWorld deliveredWorld
   \<and> lastReceivedTick (net (client (app startWorld))) = 0
   \<and> lastReceivedTick (net (client (app deliveredWorld))) = 3
   \<and> lastReceivedTick (net (client (app startWorld)))
        \<le> lastReceivedTick (net (client (app deliveredWorld)))"
proof -
  have run: "step\<^sup>*\<^sup>* startWorld deliveredWorld"
    using step_start_arrived step_arrived_delivered by (blast intro: rtranclp.intros)
  with lastReceivedTick_monotone [of startClient "snapshotAt 3" startWorld deliveredWorld]
  show ?thesis by (simp add: startWorld_client deliveredWorld_client)
qed

section \<open>The floor of tickDuration\<close>

lemma splice0_length: "splice0 (int (length xs) - int k) xs = drop (length xs - k) xs"
proof -
  have "nat (int (length xs) - int k) = length xs - k" by arith
  then show ?thesis by (simp add: splice0_def)
qed

lemma onReceive_jitterBackBuffer:
  "jitterBackBuffer (measured (net (onReceiveServerMessage c m))) = windowAfter c m"
  unfolding onReceiveServerMessage_def windowAfter_def Let_def splice0_length by simp

lemma onReceive_tickDuration:
  "Client.tickDuration (onReceiveServerMessage c m) =
     max (SERVER_TICK_DURATION * 0.9)
         (SERVER_TICK_DURATION
            - 0.01 * (sum_list (jitterBackBuffer (measured (net (onReceiveServerMessage c m))))
                        / real (length (jitterBackBuffer (measured (net (onReceiveServerMessage c m)))))
                      * SERVER_TICK_DURATION))"
  unfolding onReceiveServerMessage_def Let_def
  by (simp add: foldl_add_sum_list del: times_divide_eq_right times_divide_eq_left)

lemma reachable_tickDuration:
  assumes "reachable w"
  shows "SERVER_TICK_DURATION * 0.9 \<le> Client.tickDuration (client (app w))"
proof -
  let ?P = "\<lambda>c::Client. SERVER_TICK_DURATION * 0.9 \<le> Client.tickDuration c"
  from assms show ?thesis
  proof (rule reachable_client_invariant [where P = ?P])
    fix rnd
    show "?P (client (app (initialWorld rnd)))"
      by (simp add: initial_client initialApp_def SERVER_TICK_DURATION_def)
  next
    fix c m
    show "?P (onReceiveServerMessage c m)" by (rule onReceive_tickDuration_ge)
  next
    fix c ims assume "?P c"
    then show "?P (setInFlightMessages ims c)" by (simp add: setInFlightMessages_def)
  next
    fix c c' rdt assume "?P c" and "clientClock rdt c = Some c'"
    then show "?P c'" by (simp add: clientClock_tickDuration)
  next
    fix c c' assume "?P c" and "clientRender c = Inr c'"
    then show "?P c'" by (simp add: clientRender_fields(1))
  qed
qed

text \<open>
  C2. In every reachable state the client's \<open>tickDuration\<close> is at least 0.9 times
  \<open>SERVER_TICK_DURATION\<close>. A call of \<open>onReceiveServerMessage\<close> sets it to
  \<open>max (base * 0.9) (base - 0.01 * avgOffset * base)\<close>, with \<open>avgOffset\<close> the mean of the
  window as it is after the push; and the clock, the rendering, a change of the in-flight
  list and \<open>serverNetSend\<close> leave it as it is.
\<close>

theorem tickDuration_floor:
  "(reachable w \<longrightarrow> 0.9 * SERVER_TICK_DURATION \<le> Client.tickDuration (client (app w)))
   \<and> Client.tickDuration (onReceiveServerMessage c m) =
       max (SERVER_TICK_DURATION * 0.9)
           (SERVER_TICK_DURATION
              - 0.01 * (sum_list (jitterBackBuffer (measured (net (onReceiveServerMessage c m))))
                          / real (length (jitterBackBuffer (measured (net (onReceiveServerMessage c m)))))
                        * SERVER_TICK_DURATION))
   \<and> (clientClock rdt c = Some c1 \<longrightarrow> Client.tickDuration c1 = Client.tickDuration c)
   \<and> (clientRender c = Inr c2 \<longrightarrow> Client.tickDuration c2 = Client.tickDuration c)
   \<and> Client.tickDuration (setInFlightMessages ims c) = Client.tickDuration c
   \<and> Client.tickDuration (client (fst (serverNetSend rnd a))) = Client.tickDuration (client a)"
proof (intro conjI impI)
  assume "reachable w"
  from reachable_tickDuration [OF this]
  show "0.9 * SERVER_TICK_DURATION \<le> Client.tickDuration (client (app w))"
    by (simp add: mult.commute)
next
  show "Client.tickDuration (onReceiveServerMessage c m) =
       max (SERVER_TICK_DURATION * 0.9)
           (SERVER_TICK_DURATION
              - 0.01 * (sum_list (jitterBackBuffer (measured (net (onReceiveServerMessage c m))))
                          / real (length (jitterBackBuffer (measured (net (onReceiveServerMessage c m)))))
                        * SERVER_TICK_DURATION))"
    by (rule onReceive_tickDuration)
next
  assume "clientClock rdt c = Some c1"
  then show "Client.tickDuration c1 = Client.tickDuration c" by (rule clientClock_tickDuration)
next
  assume "clientRender c = Inr c2"
  then show "Client.tickDuration c2 = Client.tickDuration c" by (rule clientRender_fields(1))
next
  show "Client.tickDuration (setInFlightMessages ims c) = Client.tickDuration c"
    by (simp add: setInFlightMessages_def)
next
  show "Client.tickDuration (client (fst (serverNetSend rnd a))) = Client.tickDuration (client a)"
    by (simp add: serverNetSend_def Let_def)
qed

theorem tickDuration_floor_witness:
  "reachable deliveredWorld
   \<and> Client.tickDuration (client (app deliveredWorld)) = 97 / 9000
   \<and> 0.9 * SERVER_TICK_DURATION \<le> Client.tickDuration (client (app deliveredWorld))
   \<and> clientClock (1 / 100) startClient = Some (startClient\<lparr> Client.tickAccumulator := 1 / 100 \<rparr>)
   \<and> Client.tickDuration (startClient\<lparr> Client.tickAccumulator := 1 / 100 \<rparr>)
        = Client.tickDuration startClient
   \<and> clientRender startClient = Inr (startClient\<lparr> clockPaused := True \<rparr>)
   \<and> Client.tickDuration (startClient\<lparr> clockPaused := True \<rparr>) = Client.tickDuration startClient"
proof -
  have ck: "clientClock (1 / 100) startClient = Some (startClient\<lparr> Client.tickAccumulator := 1 / 100 \<rparr>)"
    by (simp add: run_defs clientTickLoop.simps)
  have rd: "clientRender startClient = Inr (startClient\<lparr> clockPaused := True \<rparr>)"
    by (simp add: run_defs)
  from tickDuration_floor [of deliveredWorld startClient "snapshotAt 3" "1 / 100"
      "startClient\<lparr> Client.tickAccumulator := 1 / 100 \<rparr>" "startClient\<lparr> clockPaused := True \<rparr>"
      "[]" zeroRand initialApp]
    reachable_deliveredWorld ck rd
  show ?thesis by (simp add: deliveredWorld_client)
qed

section \<open>A message older than lastReceivedTick\<close>

lemma onReceive_stale:
  assumes "ServerNetMessage.tick m < lastReceivedTick (net c)"
  shows "onReceiveServerMessage c m =
           c\<lparr> net := (net c)\<lparr> measured := (measured (net c))\<lparr> jitterBackBuffer := windowAfter c m \<rparr> \<rparr>,
              Client.tickDuration :=
                max (SERVER_TICK_DURATION * 0.9)
                    (SERVER_TICK_DURATION
                       - 0.01 * (sum_list (windowAfter c m) / real (length (windowAfter c m))
                                 * SERVER_TICK_DURATION)) \<rparr>"
proof -
  have w: "jitterBackBuffer (measured (net (onReceiveServerMessage c m))) = windowAfter c m"
    by (rule onReceive_jitterBackBuffer)
  have td: "Client.tickDuration (onReceiveServerMessage c m) =
              max (SERVER_TICK_DURATION * 0.9)
                  (SERVER_TICK_DURATION
                     - 0.01 * (sum_list (windowAfter c m) / real (length (windowAfter c m))
                               * SERVER_TICK_DURATION))"
    using onReceive_tickDuration [of c m] unfolding w .
  have "onReceiveServerMessage c m =
          c\<lparr> net := (net c)\<lparr> measured := (measured (net c))\<lparr> jitterBackBuffer :=
                 jitterBackBuffer (measured (net (onReceiveServerMessage c m))) \<rparr> \<rparr>,
             Client.tickDuration := Client.tickDuration (onReceiveServerMessage c m) \<rparr>"
    using assms by (simp add: onReceiveServerMessage_def Let_def)
  then show ?thesis unfolding w td .
qed

text \<open>
  C1, as the code has it. A message whose tick is below \<open>lastReceivedTick\<close> is not admitted:
  the buffer, the clock (tick, accumulator, paused flag), \<open>lastReceivedTick\<close>, the in-flight
  list and the entities stay as they are. Its offset sample has been pushed into the window
  before the test, though, and \<open>tickDuration\<close> recomputed from the window's mean: these two
  are the only fields that change.
\<close>

theorem stale_message_effect:
  assumes "ServerNetMessage.tick m < lastReceivedTick (net c)"
  shows "onReceiveServerMessage c m =
           c\<lparr> net := (net c)\<lparr> measured := (measured (net c))\<lparr> jitterBackBuffer := windowAfter c m \<rparr> \<rparr>,
              Client.tickDuration :=
                max (SERVER_TICK_DURATION * 0.9)
                    (SERVER_TICK_DURATION
                       - 0.01 * (sum_list (windowAfter c m) / real (length (windowAfter c m))
                                 * SERVER_TICK_DURATION)) \<rparr>
         \<and> backBuffer (net (onReceiveServerMessage c m)) = backBuffer (net c)
         \<and> lastReceivedTick (net (onReceiveServerMessage c m)) = lastReceivedTick (net c)
         \<and> Client.tick (onReceiveServerMessage c m) = Client.tick c
         \<and> Client.tickAccumulator (onReceiveServerMessage c m) = Client.tickAccumulator c
         \<and> clockPaused (onReceiveServerMessage c m) = clockPaused c"
proof -
  note eq = onReceive_stale [OF assms]
  show ?thesis
  proof (intro conjI)
    show "backBuffer (net (onReceiveServerMessage c m)) = backBuffer (net c)"
      by (subst eq) simp
    show "lastReceivedTick (net (onReceiveServerMessage c m)) = lastReceivedTick (net c)"
      by (subst eq) simp
    show "Client.tick (onReceiveServerMessage c m) = Client.tick c"
      by (subst eq) simp
    show "Client.tickAccumulator (onReceiveServerMessage c m) = Client.tickAccumulator c"
      by (subst eq) simp
    show "clockPaused (onReceiveServerMessage c m) = clockPaused c"
      by (subst eq) simp
  qed (rule eq)
qed

lemma startClient_received5:
  "lastReceivedTick (net (onReceiveServerMessage startClient (snapshotAt 5))) = 5"
  "jitterBackBuffer (measured (net (onReceiveServerMessage startClient (snapshotAt 5)))) = [5]"
  "Client.tickDuration (onReceiveServerMessage startClient (snapshotAt 5)) = 19 / 1800"
  "Client.tick (onReceiveServerMessage startClient (snapshotAt 5)) = 0"
  "Client.tickAccumulator (onReceiveServerMessage startClient (snapshotAt 5)) = 0"
  "bufferTicks (onReceiveServerMessage startClient (snapshotAt 5)) = [5]"
  by (simp_all add: run_defs bufferTicks_def)

theorem stale_message_effect_witness:
  "ServerNetMessage.tick (snapshotAt 3)
     < lastReceivedTick (net (onReceiveServerMessage startClient (snapshotAt 5)))
   \<and> windowAfter (onReceiveServerMessage startClient (snapshotAt 5)) (snapshotAt 3) = [5, 3]
   \<and> backBuffer (net (onReceiveServerMessage (onReceiveServerMessage startClient (snapshotAt 5))
                         (snapshotAt 3)))
       = backBuffer (net (onReceiveServerMessage startClient (snapshotAt 5)))
   \<and> lastReceivedTick (net (onReceiveServerMessage (onReceiveServerMessage startClient (snapshotAt 5))
                         (snapshotAt 3))) = 5"
proof -
  have st: "ServerNetMessage.tick (snapshotAt 3)
              < lastReceivedTick (net (onReceiveServerMessage startClient (snapshotAt 5)))"
    by (simp add: startClient_received5) (simp add: snapshotAt_def)
  have w: "windowAfter (onReceiveServerMessage startClient (snapshotAt 5)) (snapshotAt 3) = [5, 3]"
    by (simp add: windowAfter_def startClient_received5 Let_def MAX_JITTER_ROLLING_AVERAGE_def)
       (simp add: snapshotAt_def)
  from stale_message_effect [OF st] st w show ?thesis
    by (simp add: startClient_received5)
qed

text \<open>
  C1 as stated fails: with \<open>lastReceivedTick = 5\<close>, the message of tick 3 is discarded, but
  the window grows from \<open>[5]\<close> to \<open>[5, 3]\<close> and \<open>tickDuration\<close> moves from 19/1800 to 4/375.
\<close>

theorem stale_message_counterexample:
  "ServerNetMessage.tick (snapshotAt 3)
     < lastReceivedTick (net (onReceiveServerMessage startClient (snapshotAt 5)))
   \<and> jitterBackBuffer (measured (net (onReceiveServerMessage startClient (snapshotAt 5)))) = [5]
   \<and> jitterBackBuffer (measured (net (onReceiveServerMessage
          (onReceiveServerMessage startClient (snapshotAt 5)) (snapshotAt 3)))) = [5, 3]
   \<and> Client.tickDuration (onReceiveServerMessage startClient (snapshotAt 5)) = 19 / 1800
   \<and> Client.tickDuration (onReceiveServerMessage
          (onReceiveServerMessage startClient (snapshotAt 5)) (snapshotAt 3)) = 4 / 375"
  by (simp add: run_defs)

section \<open>Order of the snapshot buffer\<close>

lemma onReceive_bufferTicks:
  "bufferTicks (onReceiveServerMessage c m) =
     (if ServerNetMessage.tick m < lastReceivedTick (net c) then bufferTicks c
      else bufferTicks c @ [ServerNetMessage.tick m])"
  by (simp add: bufferTicks_def onReceive_backBuffer)

lemma onReceive_bufferAscending:
  assumes "bufferAscending c"
  shows "bufferAscending (onReceiveServerMessage c m)"
proof (cases "ServerNetMessage.tick m < lastReceivedTick (net c)")
  case True
  with assms show ?thesis
    by (simp add: bufferAscending_def onReceive_bufferTicks onReceive_lastReceivedTick)
next
  case False
  with assms show ?thesis
    by (auto simp: bufferAscending_def onReceive_bufferTicks onReceive_lastReceivedTick
        sorted_append)
qed

lemma onReceive_bufferStrictlyAscending:
  assumes "bufferStrictlyAscending c" and "ServerNetMessage.tick m \<noteq> lastReceivedTick (net c)"
  shows "bufferStrictlyAscending (onReceiveServerMessage c m)"
proof (cases "ServerNetMessage.tick m < lastReceivedTick (net c)")
  case True
  with assms show ?thesis
    by (simp add: bufferStrictlyAscending_def onReceive_bufferTicks onReceive_lastReceivedTick)
next
  case False
  with assms(2) have "lastReceivedTick (net c) < ServerNetMessage.tick m" by simp
  with assms(1) False show ?thesis
    by (fastforce simp: bufferStrictlyAscending_def onReceive_bufferTicks
        onReceive_lastReceivedTick sorted_wrt_append)
qed

lemma clientRender_bufferTicks:
  assumes "clientRender c = Inr c'"
  shows "\<exists>k. bufferTicks c' = drop k (bufferTicks c)"
proof -
  from clientRender_fields(8) [OF assms] obtain k where
    "backBuffer (net c') = drop k (backBuffer (net c))" ..
  then have "bufferTicks c' = drop k (bufferTicks c)" by (simp add: bufferTicks_def drop_map)
  then show ?thesis ..
qed

lemma clientRender_bufferAscending:
  assumes "bufferAscending c" and "clientRender c = Inr c'"
  shows "bufferAscending c'"
proof -
  from clientRender_bufferTicks [OF assms(2)] obtain k where
    k: "bufferTicks c' = drop k (bufferTicks c)" ..
  from assms(1) have "sorted (drop k (bufferTicks c))"
    by (simp add: bufferAscending_def sorted_wrt_drop)
  moreover from assms(1) have "\<forall>j \<in> set (drop k (bufferTicks c)). j \<le> lastReceivedTick (net c)"
    by (auto simp: bufferAscending_def dest: in_set_dropD)
  ultimately show ?thesis
    by (simp add: bufferAscending_def k clientRender_fields(4) [OF assms(2)])
qed

lemma clientRender_bufferStrictlyAscending:
  assumes "bufferStrictlyAscending c" and "clientRender c = Inr c'"
  shows "bufferStrictlyAscending c'"
proof -
  from clientRender_bufferTicks [OF assms(2)] obtain k where
    k: "bufferTicks c' = drop k (bufferTicks c)" ..
  from assms(1) have "sorted_wrt (<) (drop k (bufferTicks c))"
    by (simp add: bufferStrictlyAscending_def sorted_wrt_drop)
  moreover from assms(1) have "\<forall>j \<in> set (drop k (bufferTicks c)). j \<le> lastReceivedTick (net c)"
    by (auto simp: bufferStrictlyAscending_def dest: in_set_dropD)
  ultimately show ?thesis
    by (simp add: bufferStrictlyAscending_def k clientRender_fields(4) [OF assms(2)])
qed

lemma reachable_bufferAscending:
  assumes "reachable w"
  shows "bufferAscending (client (app w))"
  using assms
proof (rule reachable_client_invariant [where P = bufferAscending])
  fix rnd
  show "bufferAscending (client (app (initialWorld rnd)))"
    by (simp add: initial_client initialApp_def bufferAscending_def bufferTicks_def)
next
  fix c m assume "bufferAscending c"
  then show "bufferAscending (onReceiveServerMessage c m)" by (rule onReceive_bufferAscending)
next
  fix c ims assume "bufferAscending c"
  then show "bufferAscending (setInFlightMessages ims c)"
    by (simp add: bufferAscending_def bufferTicks_def setInFlightMessages_def)
next
  fix c c' rdt assume "bufferAscending c" and "clientClock rdt c = Some c'"
  then show "bufferAscending c'"
    by (simp add: bufferAscending_def bufferTicks_def clientClock_net)
next
  fix c c' assume "bufferAscending c" and "clientRender c = Inr c'"
  then show "bufferAscending c'" by (rule clientRender_bufferAscending)
qed

section \<open>Range of the client's accumulator\<close>





subsection \<open>The frame returns\<close>

lemma frameStep_server_tickDuration:
  assumes "frameStep t rnd w = Some (Inr w')"
  shows "Server.tickDuration (server (app w')) = Server.tickDuration (server (app w))"
proof -
  let ?rdt = "(t - lastFrameTime w) / 1000"
  let ?s0 = "(server (app w))\<lparr> Server.tickAccumulator := Server.tickAccumulator (server (app w)) + ?rdt \<rparr>"
  from assms obtain s1 ticked rnd1 where
    loop: "serverTickLoop rnd False ?s0 = Some (s1, ticked, rnd1)"
    by (auto simp: frameStep_def Let_def split: option.splits)
  from serverTickLoop_tickDuration [OF loop]
  have s1: "Server.tickDuration s1 = Server.tickDuration (server (app w))" by simp
  let ?a1 = "(app w)\<lparr> server := s1 \<rparr>"
  let ?a2 = "if ticked then fst (serverNetSend rnd1 ?a1) else ?a1"
  have "server ?a2 = s1" by (simp add: serverNetSend_def Let_def)
  moreover from assms loop have "server (app w') = server ?a2"
    by (auto simp: frameStep_def Let_def split: option.splits sum.splits)
  ultimately show ?thesis using s1 by simp
qed

lemma reachable_server_tickDuration:
  assumes "reachable w"
  shows "Server.tickDuration (server (app w)) = SERVER_TICK_DURATION"
  using assms
proof induction
  case (init rnd)
  show ?case by (simp add: initialWorld_def initAppState_def initialApp_def)
next
  case (after w w')
  from after(2) show ?case
  proof cases
    case (frame t rnd)
    from frameStep_server_tickDuration [OF frame(3)] after.IH show ?thesis by simp
  next
    case (arrival im)
    with after.IH show ?thesis by simp
  qed
qed







section \<open>Interpolation\<close>



lemma interpolateEntities_again:
  "interpolateEntities alpha ps ns es = Inr es' \<Longrightarrow> interpolateEntities alpha ps ns es' = Inr es'"
  by (induction alpha ps ns es arbitrary: es' rule: interpolateEntities.induct)
     (auto split: sum.splits)


lemma round64_10: "round64 10 = 10"
  by (subst round64_at [of "- 49"]) (simp_all add: roundHalfEven_def)

lemma round64_5: "round64 5 = 5"
  by (subst round64_at [of "- 50"]) (simp_all add: roundHalfEven_def)

lemma lerp_scenario: "lerp 0 10 (1 / 2) = 5"
  by (simp add: lerp_def round64_10 round64_5)

lemma scenario_run: "bracketInterpolate 6 scenarioClient = Inr scenarioResult"
proof -
  have "\<exists>c'. bracketInterpolate 6 scenarioClient = Inr c'"
    by (simp add: scenarioClient_def snapshotWith_def run_defs)
  then show ?thesis by (auto simp: scenarioResult_def)
qed

lemma scenarioResult_fields:
  "prevNetState scenarioResult = Some (snapshotWith 5 0)"
  "nextNetState scenarioResult = Some (snapshotWith 7 10)"
  "backBuffer (net scenarioResult) = [snapshotWith 5 0, snapshotWith 7 10]"
  "map position (entities (Client.game scenarioResult)) = replicate NUM_ENTITIES \<lparr> x = 5, y = 5 \<rparr>"
  unfolding scenarioResult_def
  by (simp_all add: scenarioClient_def snapshotWith_def run_defs lerp_scenario)






section \<open>Running the bracket search and interpolation again\<close>

lemma arrayGet_drop_bracket:
  assumes "1 \<le> k" and "k < int (length xs)"
  shows "arrayGet (drop (nat (k - 1)) xs) 0 = arrayGet xs (k - 1)"
    and "arrayGet (drop (nat (k - 1)) xs) 1 = arrayGet xs k"
proof -
  from assms have "nat (k - 1) + 1 = nat k" by simp
  moreover from assms have "nat (k - 1) < length xs" "nat k < length xs" by simp_all
  ultimately show "arrayGet (drop (nat (k - 1)) xs) 0 = arrayGet xs (k - 1)"
    and "arrayGet (drop (nat (k - 1)) xs) 1 = arrayGet xs k"
    using assms by (simp_all add: arrayGet_def)
qed

lemma client_same_fields:
  assumes "prevNetState c = pv" and "nextNetState c = nv" and "backBuffer (net c) = bb"
    and "entities (Client.game c) = es"
  shows "c\<lparr> prevNetState := pv, nextNetState := nv, net := (net c)\<lparr> backBuffer := bb \<rparr>,
           Client.game := \<lparr> entities = es \<rparr> \<rparr> = c"
    and "c\<lparr> prevNetState := pv, nextNetState := nv, net := (net c)\<lparr> backBuffer := bb \<rparr> \<rparr> = c"
  unfolding assms [symmetric] by simp_all

lemma bracketInterpolate_again:
  assumes bi: "bracketInterpolate t c = Inr c'"
  shows "bracketInterpolate t c' = Inr c'"
proof -
  let ?P = "\<lambda>m. real_of_int (ServerNetMessage.tick m) > t"
  let ?bb = "backBuffer (net c)"
  let ?idx = "findIndex ?P ?bb"
  show ?thesis
  proof (cases "1 \<le> ?idx")
    case False
    then have sp: "splice0 (?idx - 1) ?bb = ?bb" by (simp add: splice0_def)
    from False have pr: "(if ?idx > 0 then arrayGet ?bb (?idx - 1) else None) = None" by simp
    from bi have c': "c' = c\<lparr> prevNetState := None, nextNetState := arrayGet ?bb ?idx \<rparr>"
      unfolding bracketInterpolate_def Let_def pr sp
      by (auto split: option.splits)
    have f: "prevNetState c' = None" "nextNetState c' = arrayGet ?bb ?idx"
      "backBuffer (net c') = ?bb"
      by (subst c', simp)+
    have "bracketInterpolate t c' =
            Inr (c'\<lparr> prevNetState := None, nextNetState := arrayGet ?bb ?idx,
                     net := (net c')\<lparr> backBuffer := ?bb \<rparr> \<rparr>)"
      unfolding bracketInterpolate_def Let_def f(3) pr sp
      by (simp split: option.splits)
    then show ?thesis unfolding client_same_fields(2) [OF f refl] .
  next
    case True
    with findIndex_range [of ?P ?bb] have lt: "?idx < int (length ?bb)" by auto
    from True have pos: "?idx > 0" by simp
    let ?bb' = "drop (nat (?idx - 1)) ?bb"
    from True lt obtain p where p: "arrayGet ?bb (?idx - 1) = Some p"
      by (simp add: arrayGet_def)
    from True lt obtain n where n: "arrayGet ?bb ?idx = Some n"
      by (simp add: arrayGet_def)
    let ?alpha = "interpolationAlpha p n t"
    from bi pos p n obtain es where
      ie: "interpolateEntities ?alpha (entityPositions p) (entityPositions n)
             (entities (Client.game c)) = Inr es"
      and c': "c' = c\<lparr> prevNetState := Some p, nextNetState := Some n,
                       net := (net c)\<lparr> backBuffer := ?bb' \<rparr>,
                       Client.game := \<lparr> entities = es \<rparr> \<rparr>"
      unfolding bracketInterpolate_def Let_def splice0_def
      by (auto split: sum.splits)
    have f: "prevNetState c' = Some p" "nextNetState c' = Some n" "backBuffer (net c') = ?bb'"
      "entities (Client.game c') = es"
      by (subst c', simp)+
    have idx': "findIndex ?P ?bb' = 1" using True by (rule findIndex_drop)
    have p': "arrayGet ?bb' 0 = Some p" using arrayGet_drop_bracket(1) [OF True lt] p by simp
    have n': "arrayGet ?bb' 1 = Some n" using arrayGet_drop_bracket(2) [OF True lt] n by simp
    have ie': "interpolateEntities ?alpha (entityPositions p) (entityPositions n) es = Inr es"
      using ie by (rule interpolateEntities_again)
    have "bracketInterpolate t c' =
            Inr (c'\<lparr> prevNetState := Some p, nextNetState := Some n,
                     net := (net c')\<lparr> backBuffer := ?bb' \<rparr>,
                     Client.game := \<lparr> entities = es \<rparr> \<rparr>)"
      unfolding bracketInterpolate_def Let_def f(3) idx'
      by (simp add: p' n' splice0_def f(4) ie')
    then show ?thesis unfolding client_same_fields(1) [OF f] .
  qed
qed

lemma clientRender_again:
  assumes cr: "clientRender c = Inr c'"
  shows "clientRender c' = Inr c'"
proof -
  let ?bb = "backBuffer (net c)"
  let ?pause = "length ?bb = 0 \<or> targetSubTickOf c > real_of_int (ServerNetMessage.tick (last ?bb))"
  show ?thesis
  proof (cases ?pause)
    case True
    with cr have c': "c' = (if \<not> clockPaused c then c\<lparr> clockPaused := True \<rparr> else c)"
      by (simp add: clientRender_def Let_def)
    have "backBuffer (net c') = ?bb" and "targetSubTickOf c' = targetSubTickOf c"
      and "clockPaused c'"
      by (simp_all add: c' targetSubTickOf_def)
    with True show ?thesis by (simp add: clientRender_def Let_def)
  next
    case False
    let ?t = "targetSubTickOf c"
    let ?P = "\<lambda>m. real_of_int (ServerNetMessage.tick m) > ?t"
    let ?idx = "findIndex ?P ?bb"
    from False cr have bi: "bracketInterpolate ?t c = Inr c'"
      by (simp add: clientRender_def Let_def)
    from bracketInterpolate_result [OF bi] obtain es where
      c': "c' = c\<lparr> prevNetState := prevNetState c', nextNetState := nextNetState c',
                net := (net c)\<lparr> backBuffer := splice0 (?idx - 1) ?bb \<rparr>,
                Client.game := \<lparr> entities = es \<rparr> \<rparr>" by blast
    have t': "targetSubTickOf c' = ?t" by (subst c') (simp add: targetSubTickOf_def)
    have bb': "backBuffer (net c') = drop (nat (?idx - 1)) ?bb"
      by (subst c') (simp add: splice0_def)
    from findIndex_range [of ?P ?bb] False have "nat (?idx - 1) < length ?bb" by auto
    then have "backBuffer (net c') \<noteq> []" and "last (backBuffer (net c')) = last ?bb"
      unfolding bb' by simp_all
    with False t' have "\<not> (length (backBuffer (net c')) = 0 \<or> targetSubTickOf c'
             > real_of_int (ServerNetMessage.tick (last (backBuffer (net c')))))"
      by simp
    then have "clientRender c' = bracketInterpolate ?t c'"
      unfolding clientRender_def Let_def t' by simp
    with bracketInterpolate_again [OF bi] show ?thesis by simp
  qed
qed

text \<open>
  C7. A second run of the bracket search, trim and interpolation at the same target time, on
  the client the first run left, returns that client unchanged: the same \<open>prevNetState\<close> and
  \<open>nextNetState\<close>, the same buffer and the same entity positions. The same holds with the
  pause test in front.
\<close>

theorem bracketInterpolate_idempotent:
  "(bracketInterpolate t c = Inr c' \<longrightarrow> bracketInterpolate t c' = Inr c')
   \<and> (clientRender c = Inr c'' \<longrightarrow> clientRender c'' = Inr c'')"
  using bracketInterpolate_again clientRender_again by blast

theorem bracketInterpolate_idempotent_witness:
  "bracketInterpolate 6 scenarioClient = Inr scenarioResult
   \<and> bracketInterpolate 6 scenarioResult = Inr scenarioResult
   \<and> map ServerNetMessage.tick (backBuffer (net scenarioClient)) = [3, 5, 7]
   \<and> map ServerNetMessage.tick (backBuffer (net scenarioResult)) = [5, 7]
   \<and> clientRender scenarioClient = Inr scenarioResult
   \<and> clientRender scenarioResult = Inr scenarioResult"
proof -
  have cr: "clientRender scenarioClient = Inr scenarioResult"
    using scenario_run by (simp add: clientRender_def scenarioClient_def snapshotWith_def run_defs)
  have b0: "map ServerNetMessage.tick (backBuffer (net scenarioClient)) = [3, 5, 7]"
    by (simp add: scenarioClient_def snapshotWith_def)
  have b1: "map ServerNetMessage.tick (backBuffer (net scenarioResult)) = [5, 7]"
    by (simp add: scenarioResult_fields snapshotWith_def)
  from bracketInterpolate_idempotent [of 6 scenarioClient scenarioResult scenarioResult]
    scenario_run cr b0 b1
  show ?thesis by simp
qed

section \<open>The transport\<close>

lemma serverNetSend_queue:
  "queueOf (client (fst (serverNetSend rnd a))) =
     (if rnd 0 < NetSim.packetLoss (sim (net (client a))) then queueOf (client a)
      else queueOf (client a)
           @ [\<lparr> message = sentMessage a,
                 timeRemaining = (NetSim.latency (sim (net (client a))) / 2
                                  + (2 * rnd 1 - 1) * NetSim.jitter (sim (net (client a)))) / 1000 \<rparr>])"
  by (simp add: serverNetSend_def Let_def queueOf_def sentMessage_def)

lemma serverNetSend_dropped:
  "rnd 0 < NetSim.packetLoss (sim (net (client a))) \<Longrightarrow> fst (serverNetSend rnd a) = a"
  by (simp add: serverNetSend_def Let_def)

lemma serverNetSend_config:
  "NetSim.latency (sim (net (client (fst (serverNetSend rnd a))))) = NetSim.latency (sim (net (client a)))"
  "NetSim.jitter (sim (net (client (fst (serverNetSend rnd a))))) = NetSim.jitter (sim (net (client a)))"
  "NetSim.packetLoss (sim (net (client (fst (serverNetSend rnd a)))))
     = NetSim.packetLoss (sim (net (client a)))"
  by (simp_all add: serverNetSend_def Let_def)


lemma onReceive_setInFlightMessages:
  "onReceiveServerMessage (setInFlightMessages ims c) m
     = setInFlightMessages ims (onReceiveServerMessage c m)"
  by (simp add: onReceiveServerMessage_def setInFlightMessages_def Let_def)

lemma setInFlightMessages_twice:
  "setInFlightMessages ims (setInFlightMessages ims' c) = setInFlightMessages ims c"
  by (simp add: setInFlightMessages_def)

lemma clientReceive_char:
  "clientReceive rdt c =
     setInFlightMessages (map (decrement rdt) (filter (\<lambda>im. \<not> due rdt im) (queueOf c)))
       (foldl onReceiveServerMessage c (map message (filter (due rdt) (queueOf c))))"
proof -
  have "clientReceive rdt c =
          setInFlightMessages (fst (deliverMessages rdt (queueOf c) c))
            (snd (deliverMessages rdt (queueOf c) c))"
    by (simp add: clientReceive_def setInFlightMessages_def queueOf_def case_prod_beta)
  then show ?thesis by (simp add: deliverMessages_kept deliverMessages_delivered)
qed

lemma queueOf_setInFlightMessages: "queueOf (setInFlightMessages ims c) = ims"
  by (simp add: queueOf_def setInFlightMessages_def)

lemma queueOf_clientReceive:
  "queueOf (clientReceive rdt c) = map (decrement rdt) (filter (\<lambda>im. \<not> due rdt im) (queueOf c))"
  by (subst clientReceive_char) (rule queueOf_setInFlightMessages)











section \<open>A negative delay\<close>

lemma foldl_onReceive_setInFlightMessages:
  "foldl onReceiveServerMessage (setInFlightMessages ims c) ms
     = setInFlightMessages ims (foldl onReceiveServerMessage c ms)"
  by (induction ms arbitrary: c) (simp_all add: onReceive_setInFlightMessages)

lemma serverNetSend_client:
  "client (fst (serverNetSend rnd a))
     = setInFlightMessages (queueOf (client (fst (serverNetSend rnd a)))) (client a)"
  by (subst serverNetSend_result) (simp add: queueOf_def)

lemma clientReceive_appended_due:
  assumes "due rdt im"
  shows "clientReceive rdt (setInFlightMessages (queueOf c @ [im]) c)
           = onReceiveServerMessage (clientReceive rdt c) (message im)"
  using assms
  by (simp add: clientReceive_char queueOf_setInFlightMessages
      foldl_onReceive_setInFlightMessages onReceive_setInFlightMessages
      setInFlightMessages_twice)

lemma deliverMessages_due_inside:
  assumes "due rdt im"
  shows "deliverMessages rdt (before @ im # rest) c =
           (fst (deliverMessages rdt before c)
              @ fst (deliverMessages rdt rest
                       (onReceiveServerMessage (snd (deliverMessages rdt before c)) (message im))),
            snd (deliverMessages rdt rest
                   (onReceiveServerMessage (snd (deliverMessages rdt before c)) (message im))))"
  using assms by (simp add: deliverMessages_append Let_def due_def)

text \<open>
  C10. When the message is not lost and \<open>latency / 2 + u\<close> is negative, \<open>serverNetSend\<close>
  still appends it, with a negative \<open>timeRemaining\<close>. For every \<open>rdt \<ge> 0\<close> the next transport
  advance of the frame, \<open>clientReceive\<close>, delivers it: the client it leaves is the one the
  advance would have left without the message, with \<open>onReceiveServerMessage\<close> applied to the
  sent snapshot after all other deliveries, and the message is not in the queue any more.
  Wherever such a message stands in a queue, the filter hands it to \<open>onReceiveServerMessage\<close>
  in its turn and does not keep it.
\<close>

theorem negative_delay_delivered:
  assumes "\<not> rnd 0 < NetSim.packetLoss (sim (net (client a)))"
    and "NetSim.latency (sim (net (client a))) / 2
           + (2 * rnd 1 - 1) * NetSim.jitter (sim (net (client a))) < 0"
    and "0 \<le> rdt"
    and "im = \<lparr> message = sentMessage a,
                 timeRemaining = (NetSim.latency (sim (net (client a))) / 2
                                  + (2 * rnd 1 - 1) * NetSim.jitter (sim (net (client a)))) / 1000 \<rparr>"
  shows "queueOf (client (fst (serverNetSend rnd a))) = queueOf (client a) @ [im]
         \<and> timeRemaining im < 0
         \<and> due rdt im
         \<and> clientReceive rdt (client (fst (serverNetSend rnd a)))
             = onReceiveServerMessage (clientReceive rdt (client a)) (sentMessage a)
         \<and> queueOf (clientReceive rdt (client (fst (serverNetSend rnd a))))
             = queueOf (clientReceive rdt (client a))
         \<and> deliverMessages rdt (before @ im # rest) c =
             (fst (deliverMessages rdt before c)
                @ fst (deliverMessages rdt rest
                         (onReceiveServerMessage (snd (deliverMessages rdt before c)) (sentMessage a))),
              snd (deliverMessages rdt rest
                     (onReceiveServerMessage (snd (deliverMessages rdt before c)) (sentMessage a))))"
proof -
  from assms(2,4) have neg: "timeRemaining im < 0" by simp
  with assms(3) have "timeRemaining im - rdt \<le> 0" by simp
  then have d: "due rdt im" unfolding due_def by (rule round64_nonpos)
  have q: "queueOf (client (fst (serverNetSend rnd a))) = queueOf (client a) @ [im]"
    using assms(1) unfolding assms(4) by (simp add: serverNetSend_queue)
  have msg: "message im = sentMessage a" by (simp add: assms(4))
  have "client (fst (serverNetSend rnd a)) = setInFlightMessages (queueOf (client a) @ [im]) (client a)"
    by (subst serverNetSend_client) (simp only: q)
  then have r: "clientReceive rdt (client (fst (serverNetSend rnd a)))
             = onReceiveServerMessage (clientReceive rdt (client a)) (sentMessage a)"
    by (simp only: clientReceive_appended_due [OF d] msg)
  have k: "queueOf (clientReceive rdt (client (fst (serverNetSend rnd a))))
             = queueOf (clientReceive rdt (client a))"
    using d by (simp add: queueOf_clientReceive q)
  from deliverMessages_due_inside [OF d, of before rest c]
  have i: "deliverMessages rdt (before @ im # rest) c =
             (fst (deliverMessages rdt before c)
                @ fst (deliverMessages rdt rest
                         (onReceiveServerMessage (snd (deliverMessages rdt before c)) (sentMessage a))),
              snd (deliverMessages rdt rest
                     (onReceiveServerMessage (snd (deliverMessages rdt before c)) (sentMessage a))))"
    by (simp only: msg)
  from q neg d r k i show ?thesis by blast
qed

theorem negative_delay_delivered_witness:
  "\<not> zeroRand 0 < NetSim.packetLoss (sim (net (client jitteryApp)))
   \<and> NetSim.latency (sim (net (client jitteryApp))) / 2
        + (2 * zeroRand 1 - 1) * NetSim.jitter (sim (net (client jitteryApp))) = - 15
   \<and> queueOf (client (fst (serverNetSend zeroRand jitteryApp)))
       = [\<lparr> message = sentMessage jitteryApp, timeRemaining = - 15 / 1000 \<rparr>]
   \<and> due (1 / 100) \<lparr> message = sentMessage jitteryApp, timeRemaining = - 15 / 1000 \<rparr>
   \<and> clientReceive (1 / 100) (client jitteryApp) = client jitteryApp
   \<and> clientReceive (1 / 100) (client (fst (serverNetSend zeroRand jitteryApp)))
       = onReceiveServerMessage (client jitteryApp) (sentMessage jitteryApp)
   \<and> bufferTicks (clientReceive (1 / 100) (client (fst (serverNetSend zeroRand jitteryApp)))) = [0]
   \<and> queueOf (clientReceive (1 / 100) (client (fst (serverNetSend zeroRand jitteryApp)))) = []
   \<and> deliverMessages (1 / 100)
         [laterMessage, \<lparr> message = sentMessage jitteryApp, timeRemaining = - 15 / 1000 \<rparr>]
         startClient
       = ([laterMessage\<lparr> timeRemaining := round64 (1 / 2 - 1 / 100) \<rparr>],
          onReceiveServerMessage startClient (sentMessage jitteryApp))"
proof -
  let ?im = "\<lparr> message = sentMessage jitteryApp, timeRemaining = - 15 / 1000 \<rparr>"
  have cfg: "NetSim.latency (sim (net (client jitteryApp))) = 10"
    "NetSim.jitter (sim (net (client jitteryApp))) = 20"
    "NetSim.packetLoss (sim (net (client jitteryApp))) = 0"
    "queueOf (client jitteryApp) = []"
    by (simp_all add: jitteryApp_def queueOf_def)
  have h1: "\<not> zeroRand 0 < NetSim.packetLoss (sim (net (client jitteryApp)))"
    by (simp add: cfg zeroRand_def)
  have v: "NetSim.latency (sim (net (client jitteryApp))) / 2
        + (2 * zeroRand 1 - 1) * NetSim.jitter (sim (net (client jitteryApp))) = - 15"
    by (simp add: cfg zeroRand_def)
  then have h2: "NetSim.latency (sim (net (client jitteryApp))) / 2
        + (2 * zeroRand 1 - 1) * NetSim.jitter (sim (net (client jitteryApp))) < 0"
    by simp
  have h3: "(0::real) \<le> 1 / 100" by simp
  have h4: "?im = \<lparr> message = sentMessage jitteryApp,
                timeRemaining = (NetSim.latency (sim (net (client jitteryApp))) / 2
                   + (2 * zeroRand 1 - 1) * NetSim.jitter (sim (net (client jitteryApp)))) / 1000 \<rparr>"
    unfolding v by simp
  have e: "clientReceive (1 / 100) (client jitteryApp) = client jitteryApp"
    by (simp add: clientReceive_char cfg(4), simp add: setInFlightMessages_def jitteryApp_def)
  have lw: "\<not> round64 (1 / 2 - 1 / 100) \<le> (0::real)"
    by (subst round64_at [of "- 54"]) (simp_all add: roundHalfEven_def)
  note T = negative_delay_delivered [OF h1 h2 h3 h4, of "[laterMessage]" "[]" startClient]
  from T have q0: "queueOf (client (fst (serverNetSend zeroRand jitteryApp)))
          = queueOf (client jitteryApp) @ [?im]" by blast
  then have q: "queueOf (client (fst (serverNetSend zeroRand jitteryApp))) = [?im]"
    by (simp add: cfg(4))
  from T have d: "due (1 / 100) ?im" by blast
  from T have "clientReceive (1 / 100) (client (fst (serverNetSend zeroRand jitteryApp)))
       = onReceiveServerMessage (clientReceive (1 / 100) (client jitteryApp)) (sentMessage jitteryApp)"
    by blast
  then have r: "clientReceive (1 / 100) (client (fst (serverNetSend zeroRand jitteryApp)))
       = onReceiveServerMessage (client jitteryApp) (sentMessage jitteryApp)"
    by (simp only: e)
  have b: "bufferTicks (clientReceive (1 / 100) (client (fst (serverNetSend zeroRand jitteryApp)))) = [0]"
    unfolding r by (simp add: run_defs jitteryApp_def sentMessage_def bufferTicks_def)
  from T have "queueOf (clientReceive (1 / 100) (client (fst (serverNetSend zeroRand jitteryApp))))
       = queueOf (clientReceive (1 / 100) (client jitteryApp))" by blast
  then have k: "queueOf (clientReceive (1 / 100) (client (fst (serverNetSend zeroRand jitteryApp)))) = []"
    by (simp only: e cfg(4))
  from T have "deliverMessages (1 / 100) ([laterMessage] @ ?im # []) startClient
         = (fst (deliverMessages (1 / 100) [laterMessage] startClient)
              @ fst (deliverMessages (1 / 100) []
                       (onReceiveServerMessage (snd (deliverMessages (1 / 100) [laterMessage] startClient))
                          (sentMessage jitteryApp))),
            snd (deliverMessages (1 / 100) []
                   (onReceiveServerMessage (snd (deliverMessages (1 / 100) [laterMessage] startClient))
                      (sentMessage jitteryApp))))"
    by blast
  moreover have "deliverMessages (1 / 100) [laterMessage] startClient
                   = ([laterMessage\<lparr> timeRemaining := round64 (1 / 2 - 1 / 100) \<rparr>], startClient)"
    using lw by (simp add: Let_def laterMessage_def)
  ultimately have i: "deliverMessages (1 / 100) [laterMessage, ?im] startClient
       = ([laterMessage\<lparr> timeRemaining := round64 (1 / 2 - 1 / 100) \<rparr>],
          onReceiveServerMessage startClient (sentMessage jitteryApp))"
    by simp
  from h1 v q d e r b k i show ?thesis by blast
qed

section \<open>The configuration is used as it is\<close>

lemma frameStep_config:
  assumes "frameStep t rnd w = Some (Inr w')"
  shows "NetSim.latency (sim (net (client (app w')))) = NetSim.latency (sim (net (client (app w))))"
    and "NetSim.jitter (sim (net (client (app w')))) = NetSim.jitter (sim (net (client (app w))))"
    and "NetSim.packetLoss (sim (net (client (app w'))))
           = NetSim.packetLoss (sim (net (client (app w))))"
    and "interpolationDelay (net (client (app w'))) = interpolationDelay (net (client (app w)))"
proof -
  let ?c0 = "client (app w)"
  let ?P = "\<lambda>c::Client.
     NetSim.latency (sim (net c)) = NetSim.latency (sim (net ?c0))
     \<and> NetSim.jitter (sim (net c)) = NetSim.jitter (sim (net ?c0))
     \<and> NetSim.packetLoss (sim (net c)) = NetSim.packetLoss (sim (net ?c0))
     \<and> interpolationDelay (net c) = interpolationDelay (net ?c0)"
  have "?P ?c0" by simp
  with assms have "?P (client (app w'))"
  proof (rule frameStep_client_invariant [where P = ?P])
    fix c m assume "?P c"
    then show "?P (onReceiveServerMessage c m)"
      by (simp add: onReceive_sim onReceive_interpolationDelay)
  next
    fix c ims assume "?P c"
    then show "?P (setInFlightMessages ims c)" by (simp add: setInFlightMessages_def)
  next
    fix c c' assume "?P c" and "clientClock ((t - lastFrameTime w) / 1000) c = Some c'"
    then show "?P c'" by (simp add: clientClock_net)
  next
    fix c c' assume "?P c" and "clientRender c = Inr c'"
    then show "?P c'" by (simp add: clientRender_fields(5,7))
  qed
  then show "NetSim.latency (sim (net (client (app w')))) = NetSim.latency (sim (net (client (app w))))"
    and "NetSim.jitter (sim (net (client (app w')))) = NetSim.jitter (sim (net (client (app w))))"
    and "NetSim.packetLoss (sim (net (client (app w'))))
           = NetSim.packetLoss (sim (net (client (app w))))"
    and "interpolationDelay (net (client (app w'))) = interpolationDelay (net (client (app w)))"
    by simp_all
qed

text \<open>
  With a \<open>tickDuration\<close> that is not positive and below the accumulator, the server loop
  subtracts nothing or adds to the accumulator, so its test stays true: it does not return.
\<close>

lemma serverTickLoop_no_result:
  assumes "serverTickLoop rnd ticked s = Some res"
  shows "\<not> (Server.tickDuration s \<le> 0 \<and> Server.tickDuration s < Server.tickAccumulator s)"
proof (rule serverTickLoop.raw_induct [where P = "\<lambda>r b a res.
          \<not> (Server.tickDuration a \<le> 0 \<and> Server.tickDuration a < Server.tickAccumulator a)",
        OF _ assms])
  fix f :: "rand \<Rightarrow> bool \<Rightarrow> Server \<Rightarrow> (Server \<times> bool \<times> rand) option"
    and r :: rand and b :: bool and a :: Server and res' :: "Server \<times> bool \<times> rand"
  assume IH: "\<And>r b a res. f r b a = Some res \<Longrightarrow>
                 \<not> (Server.tickDuration a \<le> 0 \<and> Server.tickDuration a < Server.tickAccumulator a)"
    and eq: "(if Server.tickDuration a < Server.tickAccumulator a
              then f (snd (serverTick (Server.tickDuration a) r
                      (a\<lparr> Server.tickAccumulator := Server.tickAccumulator a - Server.tickDuration a \<rparr>)))
                     True
                     (fst (serverTick (Server.tickDuration a) r
                      (a\<lparr> Server.tickAccumulator := Server.tickAccumulator a - Server.tickDuration a \<rparr>)))
              else Some (a, b, r)) = Some res'"
  show "\<not> (Server.tickDuration a \<le> 0 \<and> Server.tickDuration a < Server.tickAccumulator a)"
  proof (cases "Server.tickDuration a < Server.tickAccumulator a")
    case True
    with eq have "f (snd (serverTick (Server.tickDuration a) r
                      (a\<lparr> Server.tickAccumulator := Server.tickAccumulator a - Server.tickDuration a \<rparr>)))
                     True
                     (fst (serverTick (Server.tickDuration a) r
                      (a\<lparr> Server.tickAccumulator := Server.tickAccumulator a - Server.tickDuration a \<rparr>)))
                  = Some res'" by simp
    from IH [OF this] True show ?thesis by (simp add: serverTick_fields)
  next
    case False
    then show ?thesis by simp
  qed
qed

lemma serverTickLoop_stalls:
  assumes "Server.tickDuration s \<le> 0" and "Server.tickDuration s < Server.tickAccumulator s"
  shows "serverTickLoop rnd ticked s = None"
proof (cases "serverTickLoop rnd ticked s")
  case None
  then show ?thesis .
next
  case (Some res)
  from serverTickLoop_no_result [OF Some] assms show ?thesis by simp
qed

lemma frameStep_stalls:
  assumes "Server.tickDuration (server (app w)) \<le> 0"
    and "Server.tickDuration (server (app w))
           < Server.tickAccumulator (server (app w)) + (t - lastFrameTime w) / 1000"
  shows "frameStep t rnd w = None"
proof -
  let ?s0 = "(server (app w))\<lparr> Server.tickAccumulator :=
               Server.tickAccumulator (server (app w)) + (t - lastFrameTime w) / 1000 \<rparr>"
  from assms have "serverTickLoop rnd False ?s0 = None"
    by (intro serverTickLoop_stalls) simp_all
  then show ?thesis by (simp add: frameStep_def Let_def)
qed

text \<open>
  C9, as the code has it. Nothing validates the configuration and nothing clamps it:
  \<open>serverNetSend\<close> and the frame leave latency, jitter and packet loss as they are, whatever
  their values, and \<open>serverNetSend\<close> uses them as given. With a packet loss of 1 or more
  every message is lost (the draw is below 1), with a packet loss of 0 or less none is, and
  the delay is \<open>(latency / 2 + (2 r - 1) * jitter) / 1000\<close> also for negative latency or
  jitter. The server's \<open>tickDuration\<close> is \<open>SERVER_TICK_DURATION\<close> in every state of a run
  from the initial state, and no frame changes it, whatever its value. A \<open>tickDuration\<close>
  that is not positive is not rejected either: the server loop does not return once the
  accumulator exceeds it, and neither does the frame.
\<close>

theorem configuration_used_as_given:
  "NetSim.latency (sim (net (client (fst (serverNetSend rnd a))))) = NetSim.latency (sim (net (client a)))
   \<and> NetSim.jitter (sim (net (client (fst (serverNetSend rnd a))))) = NetSim.jitter (sim (net (client a)))
   \<and> NetSim.packetLoss (sim (net (client (fst (serverNetSend rnd a)))))
       = NetSim.packetLoss (sim (net (client a)))
   \<and> (frameStep t rnd w = Some (Inr w') \<longrightarrow>
        NetSim.latency (sim (net (client (app w')))) = NetSim.latency (sim (net (client (app w))))
        \<and> NetSim.jitter (sim (net (client (app w')))) = NetSim.jitter (sim (net (client (app w))))
        \<and> NetSim.packetLoss (sim (net (client (app w'))))
            = NetSim.packetLoss (sim (net (client (app w))))
        \<and> Server.tickDuration (server (app w')) = Server.tickDuration (server (app w)))
   \<and> (1 \<le> NetSim.packetLoss (sim (net (client a))) \<and> rnd 0 < 1 \<longrightarrow> fst (serverNetSend rnd a) = a)
   \<and> (NetSim.packetLoss (sim (net (client a))) \<le> 0 \<and> 0 \<le> rnd 0 \<longrightarrow>
        queueOf (client (fst (serverNetSend rnd a)))
          = queueOf (client a)
            @ [\<lparr> message = sentMessage a,
                  timeRemaining = (NetSim.latency (sim (net (client a))) / 2
                                   + (2 * rnd 1 - 1) * NetSim.jitter (sim (net (client a)))) / 1000 \<rparr>])
   \<and> (reachable v \<longrightarrow> Server.tickDuration (server (app v)) = SERVER_TICK_DURATION)
   \<and> (Server.tickDuration s \<le> 0 \<and> Server.tickDuration s < Server.tickAccumulator s
        \<longrightarrow> serverTickLoop rnd ticked s = None)
   \<and> (Server.tickDuration (server (app u)) \<le> 0
        \<and> Server.tickDuration (server (app u))
            < Server.tickAccumulator (server (app u)) + (t - lastFrameTime u) / 1000
        \<longrightarrow> frameStep t rnd u = None)"
proof (intro conjI impI)
  assume f: "frameStep t rnd w = Some (Inr w')"
  then show "NetSim.latency (sim (net (client (app w')))) = NetSim.latency (sim (net (client (app w))))"
    and "NetSim.jitter (sim (net (client (app w')))) = NetSim.jitter (sim (net (client (app w))))"
    and "NetSim.packetLoss (sim (net (client (app w'))))
            = NetSim.packetLoss (sim (net (client (app w))))"
    by (rule frameStep_config)+
  from f show "Server.tickDuration (server (app w')) = Server.tickDuration (server (app w))"
    by (rule frameStep_server_tickDuration)
next
  assume "1 \<le> NetSim.packetLoss (sim (net (client a))) \<and> rnd 0 < 1"
  then have "rnd 0 < NetSim.packetLoss (sim (net (client a)))" by simp
  then show "fst (serverNetSend rnd a) = a" by (rule serverNetSend_dropped)
next
  assume "NetSim.packetLoss (sim (net (client a))) \<le> 0 \<and> 0 \<le> rnd 0"
  then have "\<not> rnd 0 < NetSim.packetLoss (sim (net (client a)))" by simp
  then show "queueOf (client (fst (serverNetSend rnd a)))
          = queueOf (client a)
            @ [\<lparr> message = sentMessage a,
                  timeRemaining = (NetSim.latency (sim (net (client a))) / 2
                                   + (2 * rnd 1 - 1) * NetSim.jitter (sim (net (client a)))) / 1000 \<rparr>]"
    by (simp add: serverNetSend_queue)
next
  assume "reachable v"
  then show "Server.tickDuration (server (app v)) = SERVER_TICK_DURATION"
    by (rule reachable_server_tickDuration)
next
  assume "Server.tickDuration s \<le> 0 \<and> Server.tickDuration s < Server.tickAccumulator s"
  then show "serverTickLoop rnd ticked s = None"
    using serverTickLoop_stalls by blast
next
  assume "Server.tickDuration (server (app u)) \<le> 0
        \<and> Server.tickDuration (server (app u))
            < Server.tickAccumulator (server (app u)) + (t - lastFrameTime u) / 1000"
  then show "frameStep t rnd u = None"
    using frameStep_stalls by blast
qed (rule serverNetSend_config)+

theorem configuration_used_as_given_witness:
  "frameStep 10 zeroRand arrivedWorld = Some (Inr deliveredWorld)
   \<and> NetSim.latency (sim (net (client (app deliveredWorld)))) = 200
   \<and> Server.tickDuration (server (app deliveredWorld)) = 1 / 90
   \<and> 1 \<le> NetSim.packetLoss (sim (net (client lossyApp))) \<and> zeroRand 0 < 1
   \<and> fst (serverNetSend zeroRand lossyApp) = lossyApp
   \<and> NetSim.packetLoss (sim (net (client badApp))) \<le> 0 \<and> 0 \<le> zeroRand 0
   \<and> queueOf (client (fst (serverNetSend zeroRand badApp)))
       = [\<lparr> message = sentMessage badApp, timeRemaining = - (1 / 25) \<rparr>]
   \<and> reachable deliveredWorld
   \<and> Server.tickDuration (server (app zeroTickWorld)) \<le> 0
   \<and> Server.tickDuration (server (app zeroTickWorld))
       < Server.tickAccumulator (server (app zeroTickWorld)) + (10 - lastFrameTime zeroTickWorld) / 1000
   \<and> serverTickLoop zeroRand False
        ((server (app zeroTickWorld))\<lparr> Server.tickAccumulator := 1 / 100 \<rparr>) = None
   \<and> frameStep 10 zeroRand zeroTickWorld = None"
proof -
  have bad: "NetSim.latency (sim (net (client badApp))) = - 100"
    "NetSim.jitter (sim (net (client badApp))) = - 10"
    "NetSim.packetLoss (sim (net (client badApp))) = - (1 / 2)"
    "queueOf (client badApp) = []"
    by (simp_all add: badApp_def queueOf_def)
  have lossy: "1 \<le> NetSim.packetLoss (sim (net (client lossyApp)))"
    by (simp add: lossyApp_def)
  have l0: "NetSim.latency (sim (net (client (app arrivedWorld)))) = 200"
    "Server.tickDuration (server (app arrivedWorld)) = 1 / 90"
    by (simp_all add: run_defs)
  have z: "Server.tickDuration (server (app zeroTickWorld)) = 0"
    "Server.tickAccumulator (server (app zeroTickWorld)) = 0"
    "lastFrameTime zeroTickWorld = 0"
    by (simp_all add: zeroTickWorld_def run_defs)
  let ?s = "(server (app zeroTickWorld))\<lparr> Server.tickAccumulator := 1 / 100 \<rparr>"
  have zs: "Server.tickDuration ?s \<le> 0 \<and> Server.tickDuration ?s < Server.tickAccumulator ?s"
    by (simp add: z)
  note A = configuration_used_as_given [of zeroRand lossyApp 10 arrivedWorld deliveredWorld
      deliveredWorld ?s False zeroTickWorld]
  note B = configuration_used_as_given [of zeroRand badApp 10 arrivedWorld deliveredWorld
      deliveredWorld ?s False zeroTickWorld]
  from A frameStep_arrivedWorld l0
  have d: "NetSim.latency (sim (net (client (app deliveredWorld)))) = 200"
    "Server.tickDuration (server (app deliveredWorld)) = 1 / 90" by simp_all
  from A lossy have drop: "fst (serverNetSend zeroRand lossyApp) = lossyApp"
    by (simp add: zeroRand_def)
  from B bad have q: "queueOf (client (fst (serverNetSend zeroRand badApp)))
       = [\<lparr> message = sentMessage badApp, timeRemaining = - (1 / 25) \<rparr>]"
    by (simp add: zeroRand_def)
  from A reachable_deliveredWorld
  have "Server.tickDuration (server (app deliveredWorld)) = SERVER_TICK_DURATION" by blast
  have z1: "Server.tickDuration (server (app zeroTickWorld)) \<le> 0" by (simp add: z)
  have z2: "Server.tickDuration (server (app zeroTickWorld))
       < Server.tickAccumulator (server (app zeroTickWorld)) + (10 - lastFrameTime zeroTickWorld) / 1000"
    by (simp add: z)
  from A zs have st: "serverTickLoop zeroRand False ?s = None" by blast
  from A z1 z2 have fs: "frameStep 10 zeroRand zeroTickWorld = None" by blast
  have r0: "0 \<le> zeroRand 0" "zeroRand 0 < 1" by (simp_all add: zeroRand_def)
  have b3: "NetSim.packetLoss (sim (net (client badApp))) \<le> 0" by (simp add: bad)
  from frameStep_arrivedWorld d lossy r0 drop b3 q reachable_deliveredWorld z1 z2 st fs
  show ?thesis by blast
qed

text \<open>
  C9 as stated fails: a latency of -100, a jitter of -10 and a packet loss of -1/2 are
  not rejected. \<open>serverNetSend\<close> queues the message with a remaining time of -1/25 s, the three
  values stay as they are, and the frame returns without an error. A server \<open>tickDuration\<close>
  of 0 is not rejected either: the first frame then does not return.
\<close>

theorem configuration_counterexample:
  "NetSim.latency (sim (net (client badApp))) = - 100
   \<and> NetSim.jitter (sim (net (client badApp))) = - 10
   \<and> NetSim.packetLoss (sim (net (client badApp))) = - (1 / 2)
   \<and> queueOf (client (fst (serverNetSend zeroRand badApp)))
       = [\<lparr> message = sentMessage badApp, timeRemaining = - (1 / 25) \<rparr>]
   \<and> NetSim.latency (sim (net (client (fst (serverNetSend zeroRand badApp))))) = - 100
   \<and> NetSim.jitter (sim (net (client (fst (serverNetSend zeroRand badApp))))) = - 10
   \<and> NetSim.packetLoss (sim (net (client (fst (serverNetSend zeroRand badApp))))) = - (1 / 2)
   \<and> (case frameStep 10 zeroRand badWorld of
         Some (Inr w) \<Rightarrow> NetSim.packetLoss (sim (net (client (app w)))) = - (1 / 2)
                         \<and> NetSim.latency (sim (net (client (app w)))) = - 100
                         \<and> NetSim.jitter (sim (net (client (app w)))) = - 10
       | _ \<Rightarrow> False)
   \<and> Server.tickDuration (server (app zeroTickWorld)) = 0
   \<and> frameStep 10 zeroRand zeroTickWorld = None"
proof -
  have a: "NetSim.latency (sim (net (client badApp))) = - 100
   \<and> NetSim.jitter (sim (net (client badApp))) = - 10
   \<and> NetSim.packetLoss (sim (net (client badApp))) = - (1 / 2)
   \<and> queueOf (client (fst (serverNetSend zeroRand badApp)))
       = [\<lparr> message = sentMessage badApp, timeRemaining = - (1 / 25) \<rparr>]
   \<and> NetSim.latency (sim (net (client (fst (serverNetSend zeroRand badApp))))) = - 100
   \<and> NetSim.jitter (sim (net (client (fst (serverNetSend zeroRand badApp))))) = - 10
   \<and> NetSim.packetLoss (sim (net (client (fst (serverNetSend zeroRand badApp))))) = - (1 / 2)
   \<and> (case frameStep 10 zeroRand badWorld of
         Some (Inr w) \<Rightarrow> NetSim.packetLoss (sim (net (client (app w)))) = - (1 / 2)
                         \<and> NetSim.latency (sim (net (client (app w)))) = - 100
                         \<and> NetSim.jitter (sim (net (client (app w)))) = - 10
       | _ \<Rightarrow> False)"
    by (simp add: badWorld_def badApp_def queueOf_def sentMessage_def run_defs
        serverTickLoop.simps clientTickLoop.simps)
  have z: "Server.tickDuration (server (app zeroTickWorld)) = 0"
    "Server.tickAccumulator (server (app zeroTickWorld)) = 0"
    "lastFrameTime zeroTickWorld = 0"
    by (simp_all add: zeroTickWorld_def run_defs)
  have "frameStep 10 zeroRand zeroTickWorld = None"
    by (rule frameStep_stalls) (simp_all add: z)
  with a z(1) show ?thesis by blast
qed

section \<open>The buffer in the program's own runs\<close>

lemma serverTickLoop_tick:
  assumes "serverTickLoop rnd ticked s = Some res"
  shows "Server.tick s \<le> Server.tick (fst res)
         \<and> (fst (snd res) \<longrightarrow> ticked \<or> Server.tick s < Server.tick (fst res))"
proof (rule serverTickLoop.raw_induct [where P = "\<lambda>r b a res.
          Server.tick a \<le> Server.tick (fst res)
          \<and> (fst (snd res) \<longrightarrow> b \<or> Server.tick a < Server.tick (fst res))", OF _ assms])
  fix f :: "rand \<Rightarrow> bool \<Rightarrow> Server \<Rightarrow> (Server \<times> bool \<times> rand) option"
    and r :: rand and b :: bool and a :: Server and res' :: "Server \<times> bool \<times> rand"
  assume IH: "\<And>r b a res. f r b a = Some res \<Longrightarrow>
                 Server.tick a \<le> Server.tick (fst res)
                 \<and> (fst (snd res) \<longrightarrow> b \<or> Server.tick a < Server.tick (fst res))"
    and eq: "(if Server.tickDuration a < Server.tickAccumulator a
              then f (snd (serverTick (Server.tickDuration a) r
                      (a\<lparr> Server.tickAccumulator := Server.tickAccumulator a - Server.tickDuration a \<rparr>)))
                     True
                     (fst (serverTick (Server.tickDuration a) r
                      (a\<lparr> Server.tickAccumulator := Server.tickAccumulator a - Server.tickDuration a \<rparr>)))
              else Some (a, b, r)) = Some res'"
  show "Server.tick a \<le> Server.tick (fst res')
        \<and> (fst (snd res') \<longrightarrow> b \<or> Server.tick a < Server.tick (fst res'))"
  proof (cases "Server.tickDuration a < Server.tickAccumulator a")
    case True
    with eq have "f (snd (serverTick (Server.tickDuration a) r
                      (a\<lparr> Server.tickAccumulator := Server.tickAccumulator a - Server.tickDuration a \<rparr>)))
                     True
                     (fst (serverTick (Server.tickDuration a) r
                      (a\<lparr> Server.tickAccumulator := Server.tickAccumulator a - Server.tickDuration a \<rparr>)))
                  = Some res'" by simp
    from IH [OF this] show ?thesis by (simp add: serverTick_fields)
  next
    case False
    with eq show ?thesis by auto
  qed
qed

lemma frameStep_parts:
  assumes "frameStep t rnd w = Some (Inr w')"
  shows "\<exists>s1 ticked rnd1 c1.
           serverTickLoop rnd False
             ((server (app w))\<lparr> Server.tickAccumulator :=
                Server.tickAccumulator (server (app w)) + (t - lastFrameTime w) / 1000 \<rparr>)
             = Some (s1, ticked, rnd1)
           \<and> server (app w') = s1
           \<and> clientClock ((t - lastFrameTime w) / 1000)
               (clientReceive ((t - lastFrameTime w) / 1000)
                  (client (if ticked then fst (serverNetSend rnd1 ((app w)\<lparr> server := s1 \<rparr>))
                           else (app w)\<lparr> server := s1 \<rparr>))) = Some c1
           \<and> clientRender c1 = Inr (client (app w'))"
proof -
  let ?rdt = "(t - lastFrameTime w) / 1000"
  let ?s0 = "(server (app w))\<lparr> Server.tickAccumulator := Server.tickAccumulator (server (app w)) + ?rdt \<rparr>"
  from assms obtain s1 ticked rnd1 where
    loop: "serverTickLoop rnd False ?s0 = Some (s1, ticked, rnd1)"
    by (auto simp: frameStep_def Let_def split: option.splits)
  let ?a1 = "(app w)\<lparr> server := s1 \<rparr>"
  let ?a2 = "if ticked then fst (serverNetSend rnd1 ?a1) else ?a1"
  from assms loop obtain c where
    upd: "clientUpdate ?rdt (client ?a2) = Some (Inr c)"
    and w': "w' = \<lparr> app = ?a2\<lparr> client := c \<rparr>, lastFrameTime = t \<rparr>"
    by (auto simp: frameStep_def Let_def split: option.splits sum.splits)
  have "server ?a2 = s1" by (simp add: serverNetSend_def Let_def)
  with w' have sv: "server (app w') = s1" by simp
  from upd obtain c1 where
    "clientClock ?rdt (clientReceive ?rdt (client ?a2)) = Some c1" and "clientRender c1 = Inr c"
    by (auto simp: clientUpdate_def split: option.splits)
  with w' loop sv show ?thesis by auto
qed

lemma queueTicks_kept:
  "map (\<lambda>im. ServerNetMessage.tick (message im)) (fst (deliverMessages rdt ims c))
     = map (\<lambda>im. ServerNetMessage.tick (message im)) (filter (\<lambda>im. \<not> due rdt im) ims)"
  by (simp add: deliverMessages_kept comp_def decrement_def)

lemma deliverMessages_fresh:
  assumes "distinct (map (\<lambda>im. ServerNetMessage.tick (message im)) ims)"
    and "lastReceivedTick (net c) \<notin> set (map (\<lambda>im. ServerNetMessage.tick (message im)) ims)"
    and "bufferStrictlyAscending c"
  shows "bufferStrictlyAscending (snd (deliverMessages rdt ims c))
         \<and> lastReceivedTick (net (snd (deliverMessages rdt ims c)))
             \<in> insert (lastReceivedTick (net c))
                  (set (map (\<lambda>im. ServerNetMessage.tick (message im)) ims))
         \<and> lastReceivedTick (net (snd (deliverMessages rdt ims c)))
             \<notin> set (map (\<lambda>im. ServerNetMessage.tick (message im)) (fst (deliverMessages rdt ims c)))"
  using assms
proof (induction ims arbitrary: c)
  case Nil
  then show ?case by simp
next
  case (Cons im ims)
  let ?tk = "\<lambda>im. ServerNetMessage.tick (message im)"
  from Cons.prems have dist: "distinct (map ?tk ims)" and nin: "?tk im \<notin> set (map ?tk ims)"
    and ne: "lastReceivedTick (net c) \<noteq> ?tk im"
    and lnin: "lastReceivedTick (net c) \<notin> set (map ?tk ims)"
    by auto
  show ?case
  proof (cases "round64 (timeRemaining im - rdt) \<le> 0")
    case True
    let ?c1 = "onReceiveServerMessage c (message im)"
    have l1: "lastReceivedTick (net ?c1) = lastReceivedTick (net c)
              \<or> lastReceivedTick (net ?c1) = ?tk im"
      by (simp add: onReceive_lastReceivedTick)
    with nin lnin have l1nin: "lastReceivedTick (net ?c1) \<notin> set (map ?tk ims)" by auto
    from Cons.prems(3) ne have b1: "bufferStrictlyAscending ?c1"
      by (intro onReceive_bufferStrictlyAscending) auto
    from Cons.IH [OF dist l1nin b1] l1 True show ?thesis by (auto simp: Let_def)
  next
    case False
    from Cons.IH [OF dist lnin Cons.prems(3)] ne nin False show ?thesis
      by (auto simp: Let_def case_prod_beta)
  qed
qed

lemma clientReceive_fresh:
  assumes "ticksFresh s c" and "bufferStrictlyAscending c"
  shows "ticksFresh s (clientReceive rdt c) \<and> bufferStrictlyAscending (clientReceive rdt c)"
proof -
  let ?tk = "\<lambda>im. ServerNetMessage.tick (message im)"
  let ?ims = "inFlightMessages (sim (net c))"
  let ?kept = "fst (deliverMessages rdt ?ims c)"
  let ?c' = "snd (deliverMessages rdt ?ims c)"
  from assms(1) have srt: "sorted_wrt (<) (map ?tk ?ims)"
    and le: "\<forall>f \<in> set (map ?tk ?ims). f \<le> s"
    and nin: "lastReceivedTick (net c) \<notin> set (map ?tk ?ims)"
    and ls: "lastReceivedTick (net c) \<le> s"
    by (auto simp: ticksFresh_def queueTicks_def queueOf_def)
  from srt have "distinct (map ?tk ?ims)" by (simp add: strict_sorted_iff)
  from deliverMessages_fresh [OF this nin assms(2)]
  have b: "bufferStrictlyAscending ?c'"
    and lin: "lastReceivedTick (net ?c') \<in> insert (lastReceivedTick (net c)) (set (map ?tk ?ims))"
    and lk: "lastReceivedTick (net ?c') \<notin> set (map ?tk ?kept)"
    by blast+
  have kt: "map ?tk ?kept = map ?tk (filter (\<lambda>im. \<not> due rdt im) ?ims)"
    by (rule queueTicks_kept)
  have res: "clientReceive rdt c = setInFlightMessages ?kept ?c'"
    by (simp add: clientReceive_def setInFlightMessages_def case_prod_beta)
  have "sorted_wrt (<) (map ?tk ?kept)"
    unfolding kt using srt by (simp add: sorted_wrt_map sorted_wrt_filter)
  moreover have "\<forall>f \<in> set (map ?tk ?kept). f \<le> s" unfolding kt using le by auto
  moreover from lin le ls have "lastReceivedTick (net ?c') \<le> s" by auto
  moreover from lk have "\<forall>f \<in> set (map ?tk ?kept). f \<noteq> lastReceivedTick (net ?c')"
    by blast
  ultimately have "ticksFresh s (setInFlightMessages ?kept ?c')"
    by (simp add: ticksFresh_def queueTicks_def queueOf_def setInFlightMessages_def)
  moreover from b have "bufferStrictlyAscending (setInFlightMessages ?kept ?c')"
    by (simp add: bufferStrictlyAscending_def bufferTicks_def setInFlightMessages_def)
  ultimately show ?thesis unfolding res by simp
qed

lemma ticksFresh_mono: "ticksFresh s c \<Longrightarrow> s \<le> s' \<Longrightarrow> ticksFresh s' c"
  by (fastforce simp: ticksFresh_def)

lemma serverNetSend_fresh:
  assumes "ticksFresh s (client a)" and "s < Server.tick (server a)"
  shows "ticksFresh (Server.tick (server a)) (client (fst (serverNetSend rnd a)))"
proof (cases "rnd 0 < NetSim.packetLoss (sim (net (client a)))")
  case True
  then have "fst (serverNetSend rnd a) = a" by (rule serverNetSend_dropped)
  with assms show ?thesis by (simp add: ticksFresh_mono)
next
  case False
  have l: "lastReceivedTick (net (client (fst (serverNetSend rnd a))))
             = lastReceivedTick (net (client a))"
    by (simp add: serverNetSend_def Let_def)
  from False have q: "queueTicks (client (fst (serverNetSend rnd a)))
                        = queueTicks (client a) @ [Server.tick (server a)]"
    by (simp add: queueTicks_def serverNetSend_queue sentMessage_def)
  from assms show ?thesis
    unfolding ticksFresh_def q l by (fastforce simp: sorted_wrt_append)
qed

lemma serverNetSend_buffer:
  "bufferStrictlyAscending (client (fst (serverNetSend rnd a))) = bufferStrictlyAscending (client a)"
  by (simp add: serverNetSend_def Let_def bufferStrictlyAscending_def bufferTicks_def)

lemma clientClock_fresh:
  assumes "clientClock rdt c = Some c'"
  shows "ticksFresh s c' = ticksFresh s c"
    and "bufferStrictlyAscending c' = bufferStrictlyAscending c"
  using clientClock_net [OF assms]
  by (simp_all add: ticksFresh_def queueTicks_def queueOf_def bufferStrictlyAscending_def
      bufferTicks_def)

lemma clientRender_fresh:
  assumes "clientRender c = Inr c'"
  shows "ticksFresh s c' = ticksFresh s c"
  using clientRender_fields(4,5) [OF assms]
  by (simp add: ticksFresh_def queueTicks_def queueOf_def)

lemma frameStep_fresh:
  assumes fr: "frameStep t rnd w = Some (Inr w')"
    and tf: "ticksFresh (Server.tick (server (app w))) (client (app w))"
    and bs: "bufferStrictlyAscending (client (app w))"
  shows "ticksFresh (Server.tick (server (app w'))) (client (app w'))
         \<and> bufferStrictlyAscending (client (app w'))"
proof -
  let ?rdt = "(t - lastFrameTime w) / 1000"
  let ?s0 = "(server (app w))\<lparr> Server.tickAccumulator := Server.tickAccumulator (server (app w)) + ?rdt \<rparr>"
  from frameStep_parts [OF fr] obtain s1 ticked rnd1 c1 where
    loop: "serverTickLoop rnd False ?s0 = Some (s1, ticked, rnd1)"
    and sv: "server (app w') = s1"
    and ck: "clientClock ?rdt (clientReceive ?rdt
               (client (if ticked then fst (serverNetSend rnd1 ((app w)\<lparr> server := s1 \<rparr>))
                        else (app w)\<lparr> server := s1 \<rparr>))) = Some c1"
    and rd: "clientRender c1 = Inr (client (app w'))"
    by blast
  let ?a1 = "(app w)\<lparr> server := s1 \<rparr>"
  let ?a2 = "if ticked then fst (serverNetSend rnd1 ?a1) else ?a1"
  from serverTickLoop_tick [OF loop]
  have le: "Server.tick (server (app w)) \<le> Server.tick s1"
    and lt: "ticked \<Longrightarrow> Server.tick (server (app w)) < Server.tick s1"
    by simp_all
  have "ticksFresh (Server.tick s1) (client ?a2) \<and> bufferStrictlyAscending (client ?a2)"
  proof (cases ticked)
    case True
    from tf have "ticksFresh (Server.tick (server (app w))) (client ?a1)" by simp
    moreover from lt [OF True] have "Server.tick (server (app w)) < Server.tick (server ?a1)"
      by simp
    ultimately have "ticksFresh (Server.tick (server ?a1)) (client (fst (serverNetSend rnd1 ?a1)))"
      by (rule serverNetSend_fresh)
    with True bs show ?thesis by (simp add: serverNetSend_buffer)
  next
    case False
    with tf le bs show ?thesis by (simp add: ticksFresh_mono)
  qed
  then have "ticksFresh (Server.tick s1) (clientReceive ?rdt (client ?a2))
             \<and> bufferStrictlyAscending (clientReceive ?rdt (client ?a2))"
    using clientReceive_fresh by blast
  with clientClock_fresh [OF ck]
  have "ticksFresh (Server.tick s1) c1 \<and> bufferStrictlyAscending c1" by simp
  with clientRender_fresh [OF rd] clientRender_bufferStrictlyAscending [OF _ rd] sv
  show ?thesis by simp
qed

lemma programReachable_strict:
  assumes "programReachable w"
  shows "ticksFresh (Server.tick (server (app w))) (client (app w))
         \<and> bufferStrictlyAscending (client (app w))"
  using assms
proof induction
  case (start rnd)
  show ?case
    by (simp add: initial_client initialApp_def ticksFresh_def queueTicks_def queueOf_def
        bufferStrictlyAscending_def bufferTicks_def)
       (simp add: initialWorld_def initAppState_def initialApp_def)
next
  case (frame w t rnd w')
  from frame.hyps(4) frame.IH show ?case using frameStep_fresh by blast
qed

lemma programReachable_reachable: "programReachable w \<Longrightarrow> reachable w"
proof (induction rule: programReachable.induct)
  case (start rnd)
  then show ?case by (rule reachable.init)
next
  case (frame w t rnd w')
  from frame.hyps(2,3,4) have "step w w'" by (rule step.frame)
  with frame.IH show ?case by (rule reachable.after)
qed

section \<open>Order of the buffer, in all runs and in the program's own\<close>

lemma rand_ok_halfRand: "rand_ok halfRand"
  by (simp add: rand_ok_def halfRand_def)

lemmas program_defs =
  halfRand_def serverTick_def serverTickEntity_def atan2_def sentMessage_def

lemma firstFrame_exists:
  "\<exists>w'. frameStep 100 halfRand (initialWorld halfRand) = Some (Inr w')"
  by (simp add: run_defs program_defs serverTickLoop.simps clientTickLoop.simps)

lemma firstFrameWorld_fields:
  "bufferTicks (client (app firstFrameWorld)) = [8]"
  "Server.tick (server (app firstFrameWorld)) = 8"
  "lastFrameTime firstFrameWorld = 100"
  "queueOf (client (app firstFrameWorld)) = []"
  unfolding firstFrameWorld_def
  by (simp_all add: run_defs program_defs bufferTicks_def queueOf_def
      serverTickLoop.simps clientTickLoop.simps)


lemma frameStep_initial_half:
  "frameStep 100 halfRand (initialWorld halfRand) = Some (Inr firstFrameWorld)"
  using firstFrame_exists by (auto simp: firstFrameWorld_def)

lemma secondFrame_exists:
  "\<exists>w'. frameStep 200 halfRand firstFrameWorld = Some (Inr w')"
  unfolding firstFrameWorld_def
  by (simp add: run_defs program_defs serverTickLoop.simps clientTickLoop.simps)

lemma frameStep_firstFrameWorld:
  "frameStep 200 halfRand firstFrameWorld = Some (Inr secondFrameWorld)"
  using secondFrame_exists by (auto simp: secondFrameWorld_def)

lemma secondFrameWorld_fields:
  "bufferTicks (client (app secondFrameWorld)) = [8, 17]"
  "Server.tick (server (app secondFrameWorld)) = 17"
  "lastReceivedTick (net (client (app secondFrameWorld))) = 17"
  unfolding secondFrameWorld_def firstFrameWorld_def
  by (simp_all add: run_defs program_defs bufferTicks_def
      serverTickLoop.simps clientTickLoop.simps)

lemma programReachable_firstFrameWorld: "programReachable firstFrameWorld"
proof -
  have "programReachable (initialWorld halfRand)"
    using rand_ok_halfRand by (rule programReachable.start)
  moreover have "lastFrameTime (initialWorld halfRand) \<le> 100" by (simp add: run_defs)
  ultimately show ?thesis
    using rand_ok_halfRand frameStep_initial_half by (rule programReachable.frame)
qed

lemma programReachable_secondFrameWorld: "programReachable secondFrameWorld"
proof -
  have "lastFrameTime firstFrameWorld \<le> 200" by (simp add: firstFrameWorld_fields)
  with programReachable_firstFrameWorld show ?thesis
    using rand_ok_halfRand frameStep_firstFrameWorld by (rule programReachable.frame)
qed

lemma step_arrive: "step w (arrive im w)"
  unfolding arrive_def by (rule step.arrival)

lemma reachable_twiceArrivedWorld: "reachable twiceArrivedWorld"
  unfolding twiceArrivedWorld_def
  using reachable_deliveredWorld step_arrive by (blast intro: reachable.after)

lemma twiceDelivered_exists:
  "\<exists>w'. frameStep 11 zeroRand twiceArrivedWorld = Some (Inr w')"
  unfolding twiceArrivedWorld_def deliveredWorld_def
  by (simp add: run_defs arrive_def serverTickLoop.simps clientTickLoop.simps)

lemma frameStep_twiceArrivedWorld:
  "frameStep 11 zeroRand twiceArrivedWorld = Some (Inr twiceDeliveredWorld)"
  using twiceDelivered_exists by (auto simp: twiceDeliveredWorld_def)

lemma twiceDeliveredWorld_fields:
  "bufferTicks (client (app twiceDeliveredWorld)) = [3, 5, 5]"
  "lastReceivedTick (net (client (app twiceDeliveredWorld))) = 5"
  unfolding twiceDeliveredWorld_def twiceArrivedWorld_def deliveredWorld_def
  by (simp_all add: run_defs arrive_def bufferTicks_def serverTickLoop.simps clientTickLoop.simps)

lemma reachable_twiceDeliveredWorld: "reachable twiceDeliveredWorld"
proof -
  have "lastFrameTime twiceArrivedWorld \<le> 11"
    unfolding twiceArrivedWorld_def deliveredWorld_def
    by (simp add: run_defs arrive_def serverTickLoop.simps clientTickLoop.simps)
  then have "step twiceArrivedWorld twiceDeliveredWorld"
    using rand_ok_zeroRand frameStep_twiceArrivedWorld by (rule step.frame)
  with reachable_twiceArrivedWorld show ?thesis by (rule reachable.after)
qed

text \<open>
  C3, as the code has it. In every reachable state, so after every admission and every trim
  and for every sequence of delivered messages, the buffer is ascending by tick with equal
  neighbours allowed, and no tick in it is above \<open>lastReceivedTick\<close>. In the states the
  program reaches on its own, where every queued message was sent by the server with its
  tick of the moment, the buffer is strictly ascending. A strictly ascending buffer stays
  strictly ascending when a message is received whose tick is not \<open>lastReceivedTick\<close>, and
  in every trim.
\<close>

theorem backBuffer_ascending:
  "(reachable w \<longrightarrow> bufferAscending (client (app w)))
   \<and> (programReachable w \<longrightarrow> bufferStrictlyAscending (client (app w)))
   \<and> (bufferStrictlyAscending c \<and> ServerNetMessage.tick m \<noteq> lastReceivedTick (net c)
        \<longrightarrow> bufferStrictlyAscending (onReceiveServerMessage c m))
   \<and> (bufferStrictlyAscending c \<and> clientRender c = Inr c' \<longrightarrow> bufferStrictlyAscending c')"
  using reachable_bufferAscending programReachable_strict onReceive_bufferStrictlyAscending
    clientRender_bufferStrictlyAscending by blast

theorem backBuffer_ascending_witness:
  "reachable twiceDeliveredWorld
   \<and> bufferTicks (client (app twiceDeliveredWorld)) = [3, 5, 5]
   \<and> bufferAscending (client (app twiceDeliveredWorld))
   \<and> programReachable secondFrameWorld
   \<and> bufferTicks (client (app secondFrameWorld)) = [8, 17]
   \<and> bufferStrictlyAscending (client (app secondFrameWorld))
   \<and> bufferTicks scenarioClient = [3, 5, 7]
   \<and> bufferStrictlyAscending scenarioClient
   \<and> ServerNetMessage.tick (snapshotAt 9) \<noteq> lastReceivedTick (net scenarioClient)
   \<and> bufferTicks (onReceiveServerMessage scenarioClient (snapshotAt 9)) = [3, 5, 7, 9]
   \<and> bufferStrictlyAscending (onReceiveServerMessage scenarioClient (snapshotAt 9))
   \<and> clientRender scenarioClient = Inr scenarioResult
   \<and> bufferTicks scenarioResult = [5, 7]
   \<and> bufferStrictlyAscending scenarioResult"
proof -
  have t0: "bufferTicks scenarioClient = [3, 5, 7]"
    by (simp add: bufferTicks_def scenarioClient_def snapshotWith_def)
  have l0: "lastReceivedTick (net scenarioClient) = 7"
    by (simp add: scenarioClient_def)
  have s0: "bufferStrictlyAscending scenarioClient"
    by (simp add: bufferStrictlyAscending_def t0 l0)
  have ne: "ServerNetMessage.tick (snapshotAt 9) \<noteq> lastReceivedTick (net scenarioClient)"
    by (simp add: l0 snapshotAt_def)
  have t1: "bufferTicks (onReceiveServerMessage scenarioClient (snapshotAt 9)) = [3, 5, 7, 9]"
    by (simp add: bufferTicks_def scenarioClient_def snapshotWith_def run_defs)
  have rd: "clientRender scenarioClient = Inr scenarioResult"
    using scenario_run by (simp add: clientRender_def scenarioClient_def snapshotWith_def run_defs)
  have t2: "bufferTicks scenarioResult = [5, 7]"
    by (simp add: bufferTicks_def scenarioResult_fields snapshotWith_def)
  note A = backBuffer_ascending [of twiceDeliveredWorld scenarioClient "snapshotAt 9" scenarioResult]
  note B = backBuffer_ascending [of secondFrameWorld scenarioClient "snapshotAt 9" scenarioResult]
  from A reachable_twiceDeliveredWorld
  have a: "bufferAscending (client (app twiceDeliveredWorld))" by blast
  from B programReachable_secondFrameWorld
  have b: "bufferStrictlyAscending (client (app secondFrameWorld))" by blast
  from A s0 ne
  have c: "bufferStrictlyAscending (onReceiveServerMessage scenarioClient (snapshotAt 9))" by blast
  from A s0 rd have d: "bufferStrictlyAscending scenarioResult" by blast
  from reachable_twiceDeliveredWorld twiceDeliveredWorld_fields(1) a
    programReachable_secondFrameWorld secondFrameWorld_fields(1) b t0 s0 ne t1 c rd t2 d
  show ?thesis by blast
qed

text \<open>
  C3 as stated fails: the snapshot of tick 5, delivered a second time when
  \<open>lastReceivedTick\<close> is 5, is pushed again, and the buffer holds tick 5 twice. It does so in
  a run as well: after the snapshot of tick 3, two arrivals of the snapshot of tick 5 and the
  frame that delivers them leave the ticks 3, 5, 5.
\<close>

theorem backBuffer_strict_counterexample:
  "ServerNetMessage.tick (snapshotAt 5)
     = lastReceivedTick (net (onReceiveServerMessage startClient (snapshotAt 5)))
   \<and> bufferTicks (onReceiveServerMessage (onReceiveServerMessage startClient (snapshotAt 5))
                    (snapshotAt 5)) = [5, 5]
   \<and> \<not> sorted_wrt (<) (bufferTicks (onReceiveServerMessage
          (onReceiveServerMessage startClient (snapshotAt 5)) (snapshotAt 5)))
   \<and> reachable twiceDeliveredWorld
   \<and> bufferTicks (client (app twiceDeliveredWorld)) = [3, 5, 5]
   \<and> \<not> sorted_wrt (<) (bufferTicks (client (app twiceDeliveredWorld)))"
proof -
  have "ServerNetMessage.tick (snapshotAt 5)
     = lastReceivedTick (net (onReceiveServerMessage startClient (snapshotAt 5)))
   \<and> bufferTicks (onReceiveServerMessage (onReceiveServerMessage startClient (snapshotAt 5))
                    (snapshotAt 5)) = [5, 5]
   \<and> \<not> sorted_wrt (<) (bufferTicks (onReceiveServerMessage
          (onReceiveServerMessage startClient (snapshotAt 5)) (snapshotAt 5)))"
    by (simp add: run_defs bufferTicks_def)
  moreover have "\<not> sorted_wrt (<) (bufferTicks (client (app twiceDeliveredWorld)))"
    by (simp add: twiceDeliveredWorld_fields)
  ultimately show ?thesis
    using reachable_twiceDeliveredWorld twiceDeliveredWorld_fields(1) by blast
qed

end
